theory Spec2Isabelle
  imports Complex_Main "HOL-Library.Multiset"
begin

section \<open>JavaScript values used by the monitoring client\<close>

text \<open>
  Strings are lists of characters. A JavaScript number is either \<open>NaN\<close> or a value of an
  ordered type: the functions below only compare numbers, multiply them and test them
  for being falsy, so the model keeps the numeric carrier abstract: a linear order with a
  zero (the two zeros of binary64 are one value of it, the infinities are values of it).
  The host functions \<open>Number\<close>, \<open>parseFloat\<close> and \<open>new Date(s).getTime()\<close> are
  parameters of the functions that call them, and every general theorem holds for each
  instance of them; the instances defined below serve to evaluate the functions on
  concrete inputs.
\<close>

datatype 'n number = NaN | Num 'n

text \<open>\<open>x || 0\<close> for \<open>x\<close> a number or \<open>undefined\<close> (an array read past the end):
  \<open>undefined\<close>, \<open>NaN\<close> and \<open>0\<close> are falsy.\<close>

fun orZero :: "'n::zero number option \<Rightarrow> 'n" where
  "orZero None = 0"
| "orZero (Some NaN) = 0"
| "orZero (Some (Num x)) = x"

text \<open>\<open>xs[i]\<close>: \<open>undefined\<close> past the end.\<close>

definition itemAt :: "'a list \<Rightarrow> nat \<Rightarrow> 'a option" where
  "itemAt xs i = (if i < length xs then Some (xs ! i) else None)"

text \<open>\<open>s.split(c)\<close> for a one-character separator: the empty string gives one empty part.\<close>

fun split :: "char \<Rightarrow> string \<Rightarrow> string list" where
  "split c [] = [[]]"
| "split c (x # xs) =
     (if x = c then [] # split c xs
      else (case split c xs of [] \<Rightarrow> [[x]] | p # ps \<Rightarrow> (x # p) # ps))"

text \<open>\<open>s.includes(t)\<close>: \<open>t\<close> occurs in \<open>s\<close> as a contiguous substring.\<close>

fun startsWith :: "string \<Rightarrow> string \<Rightarrow> bool" where
  "startsWith s [] = True"
| "startsWith [] (y # ys) = False"
| "startsWith (x # xs) (y # ys) = (x = y \<and> startsWith xs ys)"

fun includesStr :: "string \<Rightarrow> string \<Rightarrow> bool" where
  "includesStr [] t = (t = [])"
| "includesStr (x # xs) t = (startsWith (x # xs) t \<or> includesStr xs t)"

section \<open>utils/version.ts\<close>

text \<open>The \<open>for\<close> loop of \<open>compareVersions\<close>, from index \<open>i\<close>.\<close>

function compareLoop ::
  "'n::{linorder,zero} number list \<Rightarrow> 'n number list \<Rightarrow> nat \<Rightarrow> nat \<Rightarrow> int" where
  "compareLoop parts1 parts2 maxLength i =
     (if i < maxLength then
        (let part1 = orZero (itemAt parts1 i);
             part2 = orZero (itemAt parts2 i)
         in if part1 < part2 then - 1
            else if part1 > part2 then 1
            else compareLoop parts1 parts2 maxLength (i + 1))
      else 0)"
  by pat_completeness auto
termination
  by (relation "measure (\<lambda>(p1, p2, m, i). m - i)") auto

declare compareLoop.simps [simp del]

definition compareVersions ::
  "(string \<Rightarrow> 'n::{linorder,zero} number) \<Rightarrow> string \<Rightarrow> string \<Rightarrow> int" where
  "compareVersions Number v1 v2 =
     (let parts1 = map Number (split CHR ''.'' v1);
          parts2 = map Number (split CHR ''.'' v2);
          maxLength = max (length parts1) (length parts2)
      in compareLoop parts1 parts2 maxLength 0)"

text \<open>\<open>versions.reduce(...)\<close> without an initial value: the first element starts.\<close>

definition getHighestVersion ::
  "(string \<Rightarrow> 'n::{linorder,zero} number) \<Rightarrow> string list \<Rightarrow> string option" where
  "getHighestVersion Number versions =
     (case versions of
        [] \<Rightarrow> None
      | v # vs \<Rightarrow>
          Some (foldl (\<lambda>highest current.
                  if compareVersions Number current highest > 0 then current else highest)
                v vs))"

text \<open>
  The instance of \<open>Number\<close> on version segments made of decimal digits, where it is the
  value of the digits, and on the empty segment, where it is 0. Any other segment is
  sent to \<open>NaN\<close> by this instance; it is used for evaluation on dotted decimal versions only.
\<close>

definition isDigit :: "char \<Rightarrow> bool" where
  "isDigit c = (48 \<le> (of_char c :: nat) \<and> (of_char c :: nat) \<le> 57)"

definition digitsValue :: "string \<Rightarrow> nat" where
  "digitsValue s = foldl (\<lambda>a c. 10 * a + ((of_char c :: nat) - 48)) 0 s"

definition NumberDec :: "string \<Rightarrow> nat number" where
  "NumberDec s =
     (if s = [] then Num 0
      else if list_all isDigit s then Num (digitsValue s)
      else NaN)"

text \<open>
  What the claim about segment counts speaks of: the numbers a version string denotes,
  segment by segment, and the reading of a missing trailing segment as zero.
\<close>

definition segmentValues ::
  "(string \<Rightarrow> 'n::{linorder,zero} number) \<Rightarrow> string \<Rightarrow> 'n list" where
  "segmentValues Number v = map (\<lambda>s. orZero (Some (Number s))) (split CHR ''.'' v)"

definition padZero :: "nat \<Rightarrow> 'n::zero list \<Rightarrow> 'n list" where
  "padZero n xs = xs @ replicate (n - length xs) 0"

definition sameNumericValue ::
  "(string \<Rightarrow> 'n::{linorder,zero} number) \<Rightarrow> string \<Rightarrow> string \<Rightarrow> bool" where
  "sameNumericValue Number v1 v2 =
     (let a = segmentValues Number v1; b = segmentValues Number v2;
          n = max (length a) (length b)
      in padZero n a = padZero n b)"

section \<open>types/api.ts (src/unnamed/part_004)\<close>

datatype ClusterStatus = Green | Yellow | Red | Unknown

text \<open>A row of \<open>/_cat/nodes\<close> as \<open>getNodes\<close> reads it.\<close>

record CatNodesRow =
  node_role :: string
  name :: string
  ip :: "string option"
  version :: string
  uptime :: string

text \<open>\<open>upgradeOrder?: number | null\<close>: \<open>None\<close> is the absent field,
  \<open>Some None\<close> is \<open>null\<close>, \<open>Some (Some k)\<close> is the tier \<open>k\<close>.\<close>

record NodeInfo =
  nodeRole :: string
  name :: string
  ip :: "string option"
  version :: string
  uptime :: string
  upgradeOrder :: "nat option option"

record CatHealthRow =
  epoch :: string
  timestamp :: string
  cluster :: string
  status :: ClusterStatus
  node_total :: string
  node_data :: string
  shards :: string
  pri :: string
  relo :: string
  init :: string
  unassign :: string
  pending_tasks :: string
  max_task_wait_time :: string
  active_shards_percent :: string

text \<open>The allocation rows, recovery rows, cluster health and cluster settings of a
  snapshot are stored and handed on, never inspected, by the functions modelled here;
  their types are parameters.\<close>

record ('al, 're, 'he, 'se) MonitoringSnapshot =
  allocation :: "'al list"
  recovery :: "'re list"
  health :: 'he
  nodes :: "NodeInfo list"
  settings :: 'se
  catHealth :: "CatHealthRow list"
  fetchedAt :: string

section \<open>utils/upgradeOrder.ts (src/unnamed/part_003)\<close>

text \<open>The guard of the first rule: \<open>highestVersion && node.version\<close> (neither null nor
  empty) and \<open>compareVersions(node.version, highestVersion) >= 0\<close>. The role letters
  \<open>node.nodeRole || ''\<close> are \<open>nodeRole\<close> itself, a string.\<close>

definition alreadyUpgraded ::
  "(string \<Rightarrow> 'n::{linorder,zero} number) \<Rightarrow> NodeInfo \<Rightarrow> string option \<Rightarrow> bool" where
  "alreadyUpgraded Number node highestVersion =
     (case highestVersion of
        None \<Rightarrow> False
      | Some h \<Rightarrow> h \<noteq> [] \<and> version node \<noteq> [] \<and> compareVersions Number (version node) h \<ge> 0)"

definition calculateUpgradeOrder ::
  "(string \<Rightarrow> 'n::{linorder,zero} number) \<Rightarrow> NodeInfo \<Rightarrow> string option \<Rightarrow> nat option" where
  "calculateUpgradeOrder Number node highestVersion =
     (if alreadyUpgraded Number node highestVersion then None
      else
        (let role = nodeRole node
         in if includesStr role ''f'' then Some 1
            else if includesStr role ''c'' then Some 2
            else if includesStr role ''w'' then Some 3
            else if includesStr role ''h'' then Some 4
            else if includesStr role ''d'' \<or> includesStr role ''s'' then Some 5
            else if includesStr role ''l'' \<or> includesStr role ''i'' \<or> includesStr role ''t''
                    \<or> includesStr role ''r'' \<or> includesStr role ''v'' then Some 6
            else if includesStr role ''m'' then Some 7
            else Some 8))"

section \<open>services/elasticsearch.ts (in src/main.tsx): getNodes\<close>


section \<open>The App component (in src/main.tsx): nodesWithSequentialOrder\<close>

text \<open>
  \<open>Array.prototype.sort(cmp)\<close> reads only the sign of what the comparator returns and
  takes \<open>NaN\<close> for 0. It is stable, and on a comparator that orders the elements
  consistently its result is the one stable sorted arrangement, which insertion
  computes. (On an inconsistent comparator the language leaves the order to the engine.)
  A comparator of the model returns the sign of the source's difference, or \<open>NaN\<close>.
\<close>

definition cmpValue :: "int number \<Rightarrow> int" where
  "cmpValue r = (case r of NaN \<Rightarrow> 0 | Num v \<Rightarrow> v)"

fun insertBy :: "('a \<Rightarrow> 'a \<Rightarrow> int number) \<Rightarrow> 'a \<Rightarrow> 'a list \<Rightarrow> 'a list" where
  "insertBy cmp x [] = [x]"
| "insertBy cmp x (y # ys) =
     (if cmpValue (cmp x y) \<le> 0 then x # y # ys else y # insertBy cmp x ys)"

definition sortBy :: "('a \<Rightarrow> 'a \<Rightarrow> int number) \<Rightarrow> 'a list \<Rightarrow> 'a list" where
  "sortBy cmp xs = foldr (insertBy cmp) xs []"

text \<open>The sign of \<open>x - y\<close> for two numbers: \<open>NaN\<close> when either is \<open>NaN\<close>. (The
  difference of two equal infinities is \<open>NaN\<close> in the source and 0 here: the sort takes
  both for 0.)\<close>

fun minusSign :: "'u::linorder number \<Rightarrow> 'u number \<Rightarrow> int number" where
  "minusSign (Num x) (Num y) = Num (if x < y then - 1 else if y < x then 1 else 0)"
| "minusSign _ _ = NaN"

text \<open>\<open>value * m\<close> on numbers.\<close>

fun timesNum :: "'u::times number \<Rightarrow> 'u \<Rightarrow> 'u number" where
  "timesNum (Num x) m = Num (x * m)"
| "timesNum NaN m = NaN"

text \<open>\<open>uptime.match(/^([\d.]+)([smhd])$/)\<close>: the mantissa and the unit, when the string
  is one or more digits or dots followed by exactly one unit letter.\<close>

definition matchUptime :: "string \<Rightarrow> (string \<times> char) option" where
  "matchUptime up =
     (if up = [] then None
      else
        (let m = butlast up; u = last up
         in if m \<noteq> [] \<and> list_all (\<lambda>c. isDigit c \<or> c = CHR ''.'') m
               \<and> u \<in> set ''smhd''
            then Some (m, u) else None))"

definition multipliers :: "char \<Rightarrow> 'u::numeral" where
  "multipliers unit =
     (if unit = CHR ''s'' then 1 else if unit = CHR ''m'' then 60
      else if unit = CHR ''h'' then 3600 else if unit = CHR ''d'' then 86400 else 1)"

definition parseUptime ::
  "(string \<Rightarrow> 'u::{linorder,zero,times,numeral} number) \<Rightarrow> string \<Rightarrow> 'u number" where
  "parseUptime parseFloat up =
     (if up = [] then Num 0
      else
        (case matchUptime up of
           None \<Rightarrow> Num 0
         | Some (m, unit) \<Rightarrow> timesNum (parseFloat m) (multipliers unit)))"

text \<open>\<open>a.uptime || '0s'\<close>.\<close>

definition uptimeOr0s :: "NodeInfo \<Rightarrow> string" where
  "uptimeOr0s a = (if uptime a = [] then ''0s'' else uptime a)"

text \<open>\<open>a.upgradeOrder ?? 999\<close>.\<close>

definition orderOr999 :: "NodeInfo \<Rightarrow> int" where
  "orderOr999 a = (case upgradeOrder a of Some (Some k) \<Rightarrow> int k | _ \<Rightarrow> 999)"

definition isNullOrder :: "NodeInfo \<Rightarrow> bool" where
  "isNullOrder a = (upgradeOrder a = Some None)"

text \<open>The comparator of the branch in which all nodes share one version: null tiers last.\<close>

definition cmpSameVersion ::
  "(string \<Rightarrow> 'u::{linorder,zero,times,numeral} number) \<Rightarrow> NodeInfo \<Rightarrow> NodeInfo \<Rightarrow> int number" where
  "cmpSameVersion parseFloat a b =
     (if isNullOrder a \<and> isNullOrder b then Num 0
      else if isNullOrder a then Num 1
      else if isNullOrder b then Num (- 1)
      else
        (let orderDiff = orderOr999 a - orderOr999 b
         in if orderDiff \<noteq> 0 then Num (sgn orderDiff)
            else
              (let uptimeA = parseUptime parseFloat (uptimeOr0s a);
                   uptimeB = parseUptime parseFloat (uptimeOr0s b)
               in minusSign uptimeB uptimeA)))"

text \<open>The comparator of the branch with several versions: null tiers first.\<close>

definition cmpMultiVersion ::
  "(string \<Rightarrow> 'u::{linorder,zero,times,numeral} number) \<Rightarrow> NodeInfo \<Rightarrow> NodeInfo \<Rightarrow> int number" where
  "cmpMultiVersion parseFloat a b =
     (if isNullOrder a \<and> isNullOrder b then Num 0
      else if isNullOrder a then Num (- 1)
      else if isNullOrder b then Num 1
      else
        (let orderDiff = orderOr999 a - orderOr999 b
         in if orderDiff \<noteq> 0 then Num (sgn orderDiff)
            else
              (let uptimeA = parseUptime parseFloat (uptimeOr0s a);
                   uptimeB = parseUptime parseFloat (uptimeOr0s b)
               in minusSign uptimeB uptimeA)))"

text \<open>\<open>{ ...node, sequentialOrder }\<close>: the node and its position, \<open>None\<close> for
  \<open>null\<close>.\<close>

record NodeWithOrder =
  node :: NodeInfo
  sequentialOrder :: "nat option"

text \<open>The final \<open>map\<close> with its running \<open>upgradeCounter\<close>.\<close>

fun assignSequential :: "nat \<Rightarrow> NodeInfo list \<Rightarrow> NodeWithOrder list" where
  "assignSequential upgradeCounter [] = []"
| "assignSequential upgradeCounter (n # ns) =
     (if isNullOrder n
      then \<lparr> node = n, sequentialOrder = None \<rparr> # assignSequential upgradeCounter ns
      else \<lparr> node = n, sequentialOrder = Some (upgradeCounter + 1) \<rparr>
             # assignSequential (upgradeCounter + 1) ns)"

text \<open>\<open>[...new Set(xs)]\<close>: the distinct elements, each at its first occurrence.\<close>

definition newSet :: "'a list \<Rightarrow> 'a list" where
  "newSet xs = foldl (\<lambda>acc x. if x \<in> set acc then acc else acc @ [x]) [] xs"

definition allSameVersion :: "NodeInfo list \<Rightarrow> bool" where
  "allSameVersion ns = (length (newSet (map version ns)) = 1)"

definition nodesWithSequentialOrder ::
  "(string \<Rightarrow> 'n::{linorder,zero} number) \<Rightarrow>
   (string \<Rightarrow> 'u::{linorder,zero,times,numeral} number) \<Rightarrow>
   ('al, 're, 'he, 'se) MonitoringSnapshot option \<Rightarrow> NodeWithOrder list" where
  "nodesWithSequentialOrder Number parseFloat snapshot =
     (case snapshot of
        None \<Rightarrow> []
      | Some snap \<Rightarrow>
          if allSameVersion (nodes snap) then
            (let nodesWithOrder =
                   map (\<lambda>n. n \<lparr> upgradeOrder :=
                                Some (calculateUpgradeOrder Number n None) \<rparr>)
                       (nodes snap);
                 sortedNodes = sortBy (cmpSameVersion parseFloat) nodesWithOrder
             in assignSequential 0 sortedNodes)
          else
            (let sortedNodes = sortBy (cmpMultiVersion parseFloat) (nodes snap)
             in assignSequential 0 sortedNodes))"

text \<open>
  The instance of \<open>parseFloat\<close> on the mantissa of an uptime (digits and dots): the
  decimal value of the longest prefix that is a decimal literal, as an exact rational;
  \<open>NaN\<close> when no digit starts one. Rounding to binary64 is not part of it.
\<close>

definition parseFloatDec :: "string \<Rightarrow> rat number" where
  "parseFloatDec s =
     (let ip = takeWhile isDigit s;
          rest = dropWhile isDigit s;
          fp = (case rest of [] \<Rightarrow> [] | c # r \<Rightarrow> if c = CHR ''.'' then takeWhile isDigit r else [])
      in if ip = [] \<and> fp = [] then NaN
         else Num (of_nat (digitsValue ip) + of_nat (digitsValue fp) / 10 ^ length fp))"

section \<open>Notions the claims about the upgrade order use\<close>

text \<open>\<open>x >= y\<close> on numbers: false when either is \<open>NaN\<close>.\<close>

definition geNum :: "'u::linorder number \<Rightarrow> 'u number \<Rightarrow> bool" where
  "geNum x y = (case (x, y) of (Num a, Num b) \<Rightarrow> b \<le> a | _ \<Rightarrow> False)"

text \<open>The uptime of a node in seconds, as the comparators compute it.\<close>

definition uptimeSeconds ::
  "(string \<Rightarrow> 'u::{linorder,zero,times,numeral} number) \<Rightarrow> NodeInfo \<Rightarrow> 'u number" where
  "uptimeSeconds parseFloat n = parseUptime parseFloat (uptimeOr0s n)"

text \<open>Tier ascending, and for equal tiers uptime descending.\<close>

definition upgradesBefore ::
  "(string \<Rightarrow> 'u::{linorder,zero,times,numeral} number) \<Rightarrow> NodeInfo \<Rightarrow> NodeInfo \<Rightarrow> bool" where
  "upgradesBefore parseFloat a b =
     (orderOr999 a < orderOr999 b \<or>
      (orderOr999 a = orderOr999 b \<and> geNum (uptimeSeconds parseFloat a) (uptimeSeconds parseFloat b)))"

text \<open>Null tiers first, then tier ascending with uptime descending.\<close>

definition nullsFirstOrder ::
  "(string \<Rightarrow> 'u::{linorder,zero,times,numeral} number) \<Rightarrow> NodeInfo \<Rightarrow> NodeInfo \<Rightarrow> bool" where
  "nullsFirstOrder parseFloat a b =
     (isNullOrder a \<or> (\<not> isNullOrder b \<and> upgradesBefore parseFloat a b))"

text \<open>A hot-role node: its role letters hold \<open>h\<close> and no letter of a colder tier. A
  master-role node: its role letters hold \<open>m\<close> and no letter of a data or other role.\<close>

definition hotRole :: "string \<Rightarrow> bool" where
  "hotRole role = (CHR ''h'' \<in> set role \<and> set role \<inter> set ''fcw'' = {})"

definition masterRole :: "string \<Rightarrow> bool" where
  "masterRole role = (CHR ''m'' \<in> set role \<and> set role \<inter> set ''fcwhdslitrv'' = {})"

text \<open>A cluster in the middle of an upgrade: two hot nodes at 8.15.0, a master at 8.19.0.\<close>

definition exRows :: "CatNodesRow list" where
  "exRows =
     [\<lparr> node_role = ''h'', CatNodesRow.name = ''es-hot-1'', CatNodesRow.ip = None,
         CatNodesRow.version = ''8.15.0'', CatNodesRow.uptime = ''1d'' \<rparr>,
      \<lparr> node_role = ''m'', CatNodesRow.name = ''es-master-1'', CatNodesRow.ip = None,
         CatNodesRow.version = ''8.19.0'', CatNodesRow.uptime = ''2h'' \<rparr>,
      \<lparr> node_role = ''h'', CatNodesRow.name = ''es-hot-2'', CatNodesRow.ip = None,
         CatNodesRow.version = ''8.15.0'', CatNodesRow.uptime = ''3.5d'' \<rparr>]"


text \<open>A cluster before the upgrade: a master and a hot node, both at 8.15.0.\<close>

definition exMaster :: NodeInfo where
  "exMaster = \<lparr> nodeRole = ''m'', name = ''es-master-1'', ip = None, version = ''8.15.0'',
                 uptime = ''40d'', upgradeOrder = Some None \<rparr>"

definition exHot :: NodeInfo where
  "exHot = \<lparr> nodeRole = ''hs'', name = ''es-hot-1'', ip = Some ''10.0.0.7'', version = ''8.15.0'',
              uptime = ''12.5h'', upgradeOrder = Some None \<rparr>"

definition exSameSnapshot :: "(unit, unit, unit, unit) MonitoringSnapshot" where
  "exSameSnapshot =
     \<lparr> allocation = [], recovery = [], health = (), nodes = [exMaster, exHot],
       settings = (), catHealth = [], fetchedAt = ''2024-05-01T10:00:00.000Z'' \<rparr>"

section \<open>context/MonitoringProvider.tsx: mergeHealthHistory\<close>

text \<open>\<open>Map.prototype.set\<close> on a map in insertion order, kept as an association list: a
  key that is present keeps its place and takes the new value, a new key goes last.\<close>

fun mapSet :: "('k \<times> 'v) list \<Rightarrow> 'k \<Rightarrow> 'v \<Rightarrow> ('k \<times> 'v) list" where
  "mapSet [] k v = [(k, v)]"
| "mapSet ((k', v') # m) k v =
     (if k' = k then (k, v) # m else (k', v') # mapSet m k v)"

text \<open>\<open>Array.from(m.values())\<close>.\<close>

definition mapValues :: "('k \<times> 'v) list \<Rightarrow> 'v list" where
  "mapValues m = map snd m"

text \<open>\<open>xs.slice(-n)\<close>: the last \<open>n\<close> elements, all of them when there are fewer.\<close>

definition sliceLast :: "nat \<Rightarrow> 'a list \<Rightarrow> 'a list" where
  "sliceLast n xs = drop (length xs - n) xs"

text \<open>The comparator \<open>new Date(a.timestamp).getTime() - new Date(b.timestamp).getTime()\<close>.
  \<open>getTime s\<close> stands for \<open>new Date(s).getTime()\<close>: an integer of milliseconds, or
  \<open>NaN\<close> when the engine does not read \<open>s\<close> as a date.\<close>

definition cmpTimestamp ::
  "(string \<Rightarrow> int number) \<Rightarrow> CatHealthRow \<Rightarrow> CatHealthRow \<Rightarrow> int number" where
  "cmpTimestamp getTime a b = minusSign (getTime (timestamp a)) (getTime (timestamp b))"

definition mergeHealthHistory ::
  "(string \<Rightarrow> int number) \<Rightarrow> CatHealthRow list \<Rightarrow> CatHealthRow list \<Rightarrow> CatHealthRow list" where
  "mergeHealthHistory getTime prev incoming =
     (let merged = foldl (\<lambda>m item. mapSet m (timestamp item) item) [] (prev @ incoming)
      in sliceLast 40 (sortBy (cmpTimestamp getTime) (mapValues merged)))"

text \<open>What the claims about the history speak of: the last row of a list with a given
  timestamp, and a list in non-decreasing order of time.\<close>

definition lastWithTimestamp :: "CatHealthRow list \<Rightarrow> string \<Rightarrow> CatHealthRow option" where
  "lastWithTimestamp rows t =
     (case filter (\<lambda>r. timestamp r = t) rows of [] \<Rightarrow> None | r # rs \<Rightarrow> Some (last (r # rs)))"

definition orderedByTime :: "(string \<Rightarrow> int number) \<Rightarrow> CatHealthRow list \<Rightarrow> bool" where
  "orderedByTime getTime rows =
     sorted_wrt (\<lambda>a b. geNum (getTime (timestamp b)) (getTime (timestamp a))) rows"

text \<open>The timestamps of the rows are dates for the engine, and different timestamps are
  different times.\<close>

definition timestampsAreTimes :: "(string \<Rightarrow> int number) \<Rightarrow> CatHealthRow list \<Rightarrow> bool" where
  "timestampsAreTimes getTime rows = list_all (\<lambda>r. getTime (timestamp r) \<noteq> NaN) rows"

definition timestampsAreDistinctTimes :: "(string \<Rightarrow> int number) \<Rightarrow> CatHealthRow list \<Rightarrow> bool" where
  "timestampsAreDistinctTimes getTime rows =
     (timestampsAreTimes getTime rows \<and>
      list_all (\<lambda>a. list_all (\<lambda>b. getTime (timestamp a) \<noteq> getTime (timestamp b)
                                     \<or> timestamp a = timestamp b) rows) rows)"

text \<open>No two rows with different timestamps tie in the sort: the comparator returns a
  number other than 0 for them (and not \<open>NaN\<close>, which the sort takes for 0).\<close>

definition timestampsNeverTie :: "(string \<Rightarrow> int number) \<Rightarrow> CatHealthRow list \<Rightarrow> bool" where
  "timestampsNeverTie getTime rows =
     list_all (\<lambda>a. list_all (\<lambda>b. timestamp a = timestamp b
                                     \<or> cmpValue (cmpTimestamp getTime a b) \<noteq> 0) rows) rows"

text \<open>Auxiliary notions: the last row per timestamp as a map, the rows of the map after
  the \<open>forEach\<close>, and the time of a row whose timestamp is a date.\<close>

definition latest :: "CatHealthRow list \<Rightarrow> string \<Rightarrow> CatHealthRow option" where
  "latest xs = map_of (rev (map (\<lambda>r. (timestamp r, r)) xs))"

definition dedup :: "CatHealthRow list \<Rightarrow> CatHealthRow list" where
  "dedup xs = mapValues (foldl (\<lambda>m item. mapSet m (timestamp item) item) [] xs)"

definition timeOf :: "(string \<Rightarrow> int number) \<Rightarrow> CatHealthRow \<Rightarrow> int" where
  "timeOf getTime r = (case getTime (timestamp r) of Num t \<Rightarrow> t | NaN \<Rightarrow> 0)"

section \<open>Health rows used as concrete inputs\<close>

text \<open>
  The instance of \<open>getTime\<close> on timestamps that the engine does not read as dates, as
  V8 does not read the clock times \<open>HH:MM:SS\<close> that \<open>/_cat/health\<close> reports (a time of
  day without a day is an Invalid Date): each such timestamp gives \<open>NaN\<close>. It is
  applied to clock times only.
\<close>

definition getTimeInvalid :: "string \<Rightarrow> int number" where
  "getTimeInvalid s = NaN"

definition twoDigits :: "nat \<Rightarrow> string" where
  "twoDigits n = [char_of (48 + n div 10), char_of (48 + n mod 10)]"

definition clockRow :: "nat \<Rightarrow> ClusterStatus \<Rightarrow> CatHealthRow" where
  "clockRow i st =
     \<lparr> epoch = ''17145576'' @ twoDigits i, timestamp = ''10:00:'' @ twoDigits i, cluster = ''prod'',
       status = st, node_total = ''3'', node_data = ''3'', shards = ''120'', pri = ''60'',
       relo = ''0'', init = ''0'', unassign = ''0'', pending_tasks = ''0'',
       max_task_wait_time = ''-'', active_shards_percent = ''100.0%'' \<rparr>"

text \<open>The time of day that a clock time \<open>HH:MM:SS\<close> denotes, in seconds.\<close>

definition clockSeconds :: "string \<Rightarrow> nat option" where
  "clockSeconds t =
     (case split CHR '':'' t of
        [h, m, s] \<Rightarrow>
          if list_all (\<lambda>p. length p = 2 \<and> list_all isDigit p) [h, m, s]
          then Some (3600 * digitsValue h + 60 * digitsValue m + digitsValue s)
          else None
      | _ \<Rightarrow> None)"

text \<open>
  The instance of \<open>getTime\<close> on the ISO timestamps of one minute,
  \<open>2024-05-01T10:00:ssZ\<close> and \<open>2024-05-01T10:00:ss.000Z\<close> (the date-time format of the
  language, with and without the fraction of a second): milliseconds since the epoch.
  Other strings are not dates for this instance.
\<close>

definition getTimeIsoEx :: "string \<Rightarrow> int number" where
  "getTimeIsoEx s =
     (let sec = take 2 (drop 17 s); zone = drop 19 s
      in if take 17 s = ''2024-05-01T10:00:'' \<and> length sec = 2 \<and> list_all isDigit sec
            \<and> digitsValue sec < 60 \<and> (zone = ''Z'' \<or> zone = ''.000Z'')
         then Num (1714557600000 + 1000 * int (digitsValue sec))
         else NaN)"

definition isoRow :: "string \<Rightarrow> ClusterStatus \<Rightarrow> CatHealthRow" where
  "isoRow t st =
     \<lparr> epoch = ''1714557600'', timestamp = t, cluster = ''prod'',
       status = st, node_total = ''3'', node_data = ''3'', shards = ''120'', pri = ''60'',
       relo = ''0'', init = ''0'', unassign = ''0'', pending_tasks = ''0'',
       max_task_wait_time = ''-'', active_shards_percent = ''100.0%'' \<rparr>"

definition exPrev :: "CatHealthRow list" where
  "exPrev = [isoRow ''2024-05-01T10:00:05Z'' Green, isoRow ''2024-05-01T10:00:00Z'' Green]"

definition exIncoming :: "CatHealthRow list" where
  "exIncoming = [isoRow ''2024-05-01T10:00:10Z'' Green, isoRow ''2024-05-01T10:00:05Z'' Red]"

text \<open>
  A history of forty rows: two reports of the instant 10:00:00, written \<open>10:00:00Z\<close> and
  \<open>10:00:00.000Z\<close>, and one row per second from 10:00:01 to 10:00:38. Two rows arrive:
  a second report for the timestamp \<open>10:00:00Z\<close>, and the row of 10:00:39.
\<close>

definition isoStamp :: "nat \<Rightarrow> string" where
  "isoStamp i = ''2024-05-01T10:00:'' @ twoDigits i @ ''Z''"

definition tieHistory :: "CatHealthRow list" where
  "tieHistory =
     [isoRow (isoStamp 0) Green, isoRow ''2024-05-01T10:00:00.000Z'' Green]
     @ map (\<lambda>i. isoRow (isoStamp i) Green) [1..<39]"

definition tieIncoming :: "CatHealthRow list" where
  "tieIncoming = [isoRow (isoStamp 0) Red, isoRow (isoStamp 39) Green]"

section \<open>types/app.ts (src/unnamed/part_004) and the state of MonitoringProvider\<close>

record CreateClusterInput =
  label :: string
  baseUrl :: string
  username :: "string option"
  password :: "string option"

record ClusterConnection =
  label :: string
  baseUrl :: string
  username :: string
  password :: string

text \<open>What \<open>checkClusterHealth\<close> resolves to.\<close>

record HealthCheckResult =
  success :: bool
  error :: "string option"

text \<open>A notification of the \<open>toast\<close> library: title and description.\<close>

datatype Toast = ToastError string "string option" | ToastSuccess string "string option"

text \<open>The state hooks and refs of the provider that the modelled callbacks read or write,
  and the notifications shown so far.\<close>

record ('al, 're, 'he, 'se) ProviderState =
  snapshot :: "('al, 're, 'he, 'se) MonitoringSnapshot option"
  healthHistory :: "CatHealthRow list"
  loading :: bool
  refreshing :: bool
  error :: "string option"
  connectionFailed :: bool
  clusters :: "ClusterConnection list"
  activeClusterLabel :: string
  lastUpdated :: "string option"
  healthCheckDone :: bool
  toasts :: "Toast list"

text \<open>\<open>clusters.find(c => c.label === activeClusterLabel) ?? clusters[0] ?? null\<close>.\<close>

definition activeCluster :: "('al, 're, 'he, 'se) ProviderState \<Rightarrow> ClusterConnection option" where
  "activeCluster s =
     (case find (\<lambda>c. label c = activeClusterLabel s) (clusters s) of
        Some c \<Rightarrow> Some c
      | None \<Rightarrow> (case clusters s of [] \<Rightarrow> None | c # _ \<Rightarrow> Some c))"

section \<open>String functions of the host\<close>

text \<open>Strings hold code units below 256. \<open>toLowerCase\<close> on them: the letters A to Z
  and the capital letters of Latin-1 move by 32.\<close>

definition lowerChar :: "char \<Rightarrow> char" where
  "lowerChar c =
     (let n = (of_char c :: nat)
      in if (65 \<le> n \<and> n \<le> 90) \<or> (192 \<le> n \<and> n \<le> 222 \<and> n \<noteq> 215)
         then char_of (n + 32) else c)"

definition toLowerCase :: "string \<Rightarrow> string" where
  "toLowerCase s = map lowerChar s"

text \<open>\<open>trim\<close>: the white space and line terminators below 256.\<close>

definition isWhiteSpace :: "char \<Rightarrow> bool" where
  "isWhiteSpace c = ((of_char c :: nat) \<in> {9, 10, 11, 12, 13, 32, 160})"

definition trim :: "string \<Rightarrow> string" where
  "trim s = rev (dropWhile isWhiteSpace (rev (dropWhile isWhiteSpace s)))"

text \<open>\<open>s.replace(/\/$/, '')\<close>: one slash at the very end is removed.\<close>

definition dropTrailingSlash :: "string \<Rightarrow> string" where
  "dropTrailingSlash s = (if s \<noteq> [] \<and> last s = CHR ''/'' then butlast s else s)"

text \<open>\<open>a || b\<close> on strings: the empty string is falsy.\<close>

definition orElse :: "string \<Rightarrow> string \<Rightarrow> string" where
  "orElse a b = (if a = [] then b else a)"

text \<open>\<open>field?.trim() || ''\<close> for an optional field.\<close>

definition trimOrEmpty :: "string option \<Rightarrow> string" where
  "trimOrEmpty f = (case f of None \<Rightarrow> [] | Some v \<Rightarrow> trim v)"

section \<open>context/MonitoringProvider.tsx: the connection set\<close>

definition setActiveCluster ::
  "string \<Rightarrow> ('al, 're, 'he, 'se) ProviderState \<Rightarrow> ('al, 're, 'he, 'se) ProviderState" where
  "setActiveCluster clusterLabel s =
     s \<lparr> activeClusterLabel := clusterLabel, healthCheckDone := False \<rparr>"

definition addCluster ::
  "CreateClusterInput \<Rightarrow> ('al, 're, 'he, 'se) ProviderState \<Rightarrow> ('al, 're, 'he, 'se) ProviderState" where
  "addCluster input s =
     (let sanitizedBaseUrl = dropTrailingSlash (trim (CreateClusterInput.baseUrl input));
          clusterLabel = trim (orElse (CreateClusterInput.label input) sanitizedBaseUrl);
          newCluster = \<lparr> label = clusterLabel, baseUrl = sanitizedBaseUrl,
                         username = trimOrEmpty (CreateClusterInput.username input),
                         password = trimOrEmpty (CreateClusterInput.password input) \<rparr>;
          prev = clusters s;
          exists = list_ex (\<lambda>c. label c = label newCluster) prev
      in s \<lparr> clusters :=
                (if exists then map (\<lambda>c. if label c = label newCluster then newCluster else c) prev
                 else prev @ [newCluster]),
             activeClusterLabel := label newCluster,
             toasts := toasts s @
                [ToastSuccess ''Cluster added'' (Some (label newCluster @ '' is now active.''))] \<rparr>)"

definition updateCluster ::
  "string \<Rightarrow> CreateClusterInput \<Rightarrow> ('al, 're, 'he, 'se) ProviderState
     \<Rightarrow> ('al, 're, 'he, 'se) ProviderState" where
  "updateCluster clusterLabel input s =
     (let sanitizedBaseUrl = dropTrailingSlash (trim (CreateClusterInput.baseUrl input));
          newLabel = orElse (CreateClusterInput.label input) sanitizedBaseUrl
      in s \<lparr> clusters :=
                map (\<lambda>cluster.
                       if label cluster = clusterLabel
                       then cluster \<lparr> label := newLabel, baseUrl := sanitizedBaseUrl,
                                      username := trimOrEmpty (CreateClusterInput.username input),
                                      password := trimOrEmpty (CreateClusterInput.password input) \<rparr>
                       else cluster)
                    (clusters s),
             activeClusterLabel :=
                (if activeClusterLabel s = clusterLabel then newLabel else activeClusterLabel s),
             toasts := toasts s @
                [ToastSuccess ''Cluster updated'' (Some (newLabel @ '' has been updated.''))] \<rparr>)"

definition deleteCluster ::
  "string \<Rightarrow> ('al, 're, 'he, 'se) ProviderState \<Rightarrow> ('al, 're, 'he, 'se) ProviderState" where
  "deleteCluster clusterLabel s =
     (let clusterToDelete = find (\<lambda>c. label c = clusterLabel) (clusters s)
      in if length (clusters s) = 1
         then s \<lparr> toasts := toasts s @
                      [ToastError ''Cannot delete'' (Some ''At least one cluster must remain.'')] \<rparr>
         else
           (let remaining = filter (\<lambda>c. label c \<noteq> clusterLabel) (clusters s)
            in s \<lparr> clusters := filter (\<lambda>c. label c \<noteq> clusterLabel) (clusters s),
                   activeClusterLabel :=
                      (if activeClusterLabel s = clusterLabel
                       then (case remaining of [] \<Rightarrow> [] | c # _ \<Rightarrow> label c)
                       else activeClusterLabel s),
                   toasts := toasts s @
                      [ToastSuccess ''Cluster deleted''
                         (case clusterToDelete of
                            None \<Rightarrow> None
                          | Some c \<Rightarrow> Some (label c @ '' has been removed.''))] \<rparr>))"

text \<open>The invariant of the connection set: labels are pairwise different.\<close>

definition uniqueLabels :: "('al, 're, 'he, 'se) ProviderState \<Rightarrow> bool" where
  "uniqueLabels s = distinct (map label (clusters s))"

section \<open>context/MonitoringProvider.tsx: fetchAll\<close>

text \<open>
  \<open>fetchAll\<close> is an async function closed over the \<open>activeCluster\<close> and
  \<open>connectionFailed\<close> of the render that made it. It runs in two parts: up to the
  \<open>await\<close> of the six requests (\<open>fetchAll_start\<close>), and, when they have settled, the
  rest of the \<open>try\<close> block (\<open>fetchAll_fulfilled\<close>) or the \<open>catch\<close> block
  (\<open>fetchAll_rejected\<close>), each followed by the \<open>finally\<close> block. The second part
  applies its state setters to the state of the provider as it is then.
\<close>

text \<open>A thrown value: an \<open>Error\<close> with its name and message, or a value that is not one.\<close>

datatype Thrown = ErrorObject string string | NotAnError

definition finallyBlock ::
  "('al, 're, 'he, 'se) ProviderState \<Rightarrow> ('al, 're, 'he, 'se) ProviderState" where
  "finallyBlock s = s \<lparr> loading := False, refreshing := False \<rparr>"

text \<open>The part before the \<open>await\<close>: the new state, and the connection the six requests
  went to, if they were issued.\<close>

definition fetchAll_start ::
  "ClusterConnection option \<Rightarrow> bool \<Rightarrow> ('al, 're, 'he, 'se) ProviderState
     \<Rightarrow> ('al, 're, 'he, 'se) ProviderState \<times> ClusterConnection option" where
  "fetchAll_start closureCluster closureFailed s =
     (case closureCluster of
        None \<Rightarrow>
          (finallyBlock (s \<lparr> error := Some ''Please add a cluster to start monitoring.'',
                              loading := False, refreshing := False, connectionFailed := False \<rparr>),
           None)
      | Some c \<Rightarrow>
          if closureFailed then (finallyBlock s, None)
          else (s \<lparr> refreshing := True, error := None, connectionFailed := False \<rparr>, Some c))"

text \<open>The rest of the \<open>try\<close> block, with the six results and the time of the clock.\<close>

definition fetchAll_fulfilled ::
  "(string \<Rightarrow> int number) \<Rightarrow> 'al list \<Rightarrow> 're list \<Rightarrow> 'he \<Rightarrow> NodeInfo list \<Rightarrow> 'se
     \<Rightarrow> CatHealthRow list \<Rightarrow> string
     \<Rightarrow> ('al, 're, 'he, 'se) ProviderState \<Rightarrow> ('al, 're, 'he, 'se) ProviderState" where
  "fetchAll_fulfilled getTime al re he ns se ch now s =
     finallyBlock
       (s \<lparr> lastUpdated := Some now,
             snapshot := Some \<lparr> allocation = al, recovery = re, health = he, nodes = ns,
                                 settings = se, catHealth = ch, fetchedAt = now \<rparr>,
             healthHistory := mergeHealthHistory getTime (healthHistory s) ch,
             connectionFailed := False \<rparr>)"

text \<open>The message of the \<open>catch\<close> block after its rewriting to \<open>Network error\<close>.\<close>

definition errorMessage :: "Thrown \<Rightarrow> string" where
  "errorMessage err =
     (let message = (case err of ErrorObject n m \<Rightarrow> m | NotAnError \<Rightarrow> ''Unknown error occurred'')
      in if includesStr (toLowerCase message) ''fetch''
            \<and> (includesStr (toLowerCase message) ''failed''
                 \<or> includesStr (toLowerCase message) ''error'')
         then ''Network error'' else message)"

definition isTimeout :: "Thrown \<Rightarrow> bool" where
  "isTimeout err =
     (case err of
        NotAnError \<Rightarrow> False
      | ErrorObject n m \<Rightarrow>
          n = ''AbortError'' \<or> n = ''TimeoutError''
          \<or> includesStr (toLowerCase (errorMessage err)) ''timeout''
          \<or> includesStr (toLowerCase (errorMessage err)) ''aborted'')"

definition networkErrorMessage :: "ClusterConnection \<Rightarrow> string" where
  "networkErrorMessage c = ''Network error, cannot access your cluster. Cluster uri: '' @ baseUrl c"

text \<open>\<open>if (!message.toLowerCase().includes('mock')) toast.error(...)\<close>.\<close>

definition toastUnlessMock ::
  "string \<Rightarrow> ('al, 're, 'he, 'se) ProviderState \<Rightarrow> ('al, 're, 'he, 'se) ProviderState" where
  "toastUnlessMock message s =
     (if includesStr (toLowerCase message) ''mock'' then s
      else s \<lparr> toasts := toasts s @ [ToastError ''Data refresh failed'' (Some message)] \<rparr>)"

text \<open>The \<open>catch\<close> block. \<open>healthResult\<close> is what \<open>checkClusterHealth\<close> resolves
  to; it is awaited in the branch \<open>isTimeout && activeCluster\<close> only.\<close>

definition fetchAll_rejected ::
  "Thrown \<Rightarrow> ClusterConnection option \<Rightarrow> HealthCheckResult
     \<Rightarrow> ('al, 're, 'he, 'se) ProviderState \<Rightarrow> ('al, 're, 'he, 'se) ProviderState" where
  "fetchAll_rejected err closureCluster healthResult s =
     (let message = errorMessage err
      in case (if isTimeout err then closureCluster else None) of
           Some c \<Rightarrow>
             if \<not> success healthResult then
               finallyBlock
                 (s \<lparr> connectionFailed := True,
                       error := Some (case HealthCheckResult.error healthResult of
                                        None \<Rightarrow> networkErrorMessage c
                                      | Some e \<Rightarrow> orElse e (networkErrorMessage c)),
                       loading := False, refreshing := False \<rparr>)
             else
               finallyBlock
                 (toastUnlessMock message (s \<lparr> error := Some message, connectionFailed := False \<rparr>))
         | None \<Rightarrow>
             finallyBlock
               (toastUnlessMock message
                  (s \<lparr> error :=
                          Some (case closureCluster of
                                  None \<Rightarrow> message
                                | Some c \<Rightarrow>
                                    if includesStr (toLowerCase message) ''network error''
                                    then networkErrorMessage c else message),
                        connectionFailed := True \<rparr>)))"

text \<open>The polling effect holds an interval exactly when
  \<open>connectionFailed || !activeCluster\<close> is false.\<close>

definition pollingActive :: "('al, 're, 'he, 'se) ProviderState \<Rightarrow> bool" where
  "pollingActive s = (\<not> (connectionFailed s \<or> activeCluster s = None))"

section \<open>Executions of the provider\<close>

text \<open>
  How a cycle settles: with the six results and the time of the clock, or with a thrown
  value and (for a timeout) the answer of the health probe.
\<close>

datatype ('al, 're, 'he, 'se) Outcome =
    Fulfilled "'al list" "'re list" 'he "NodeInfo list" 'se "CatHealthRow list" string
  | Rejected Thrown HealthCheckResult

text \<open>
  The events of an execution: \<open>fetchAll\<close> of the current render is called (by the polling
  interval, an effect or the refresh button); the user selects a connection; the
  \<open>i\<close>-th outstanding cycle settles. The outstanding cycles are kept with the
  connection their closure holds. Nothing in the provider cancels an outstanding cycle.
\<close>

datatype ('al, 're, 'he, 'se) Event =
    CallFetchAll
  | SelectCluster string
  | Settle nat "('al, 're, 'he, 'se) Outcome"

fun step ::
  "(string \<Rightarrow> int number) \<Rightarrow> ('al, 're, 'he, 'se) Event
     \<Rightarrow> ('al, 're, 'he, 'se) ProviderState \<times> ClusterConnection list
     \<Rightarrow> ('al, 're, 'he, 'se) ProviderState \<times> ClusterConnection list" where
  "step getTime CallFetchAll (s, outstanding) =
     (case fetchAll_start (activeCluster s) (connectionFailed s) s of
        (s', None) \<Rightarrow> (s', outstanding)
      | (s', Some c) \<Rightarrow> (s', outstanding @ [c]))"
| "step getTime (SelectCluster clusterLabel) (s, outstanding) =
     (setActiveCluster clusterLabel s, outstanding)"
| "step getTime (Settle i outcome) (s, outstanding) =
     (if i < length outstanding then
        ((case outcome of
            Fulfilled al re he ns se ch now \<Rightarrow> fetchAll_fulfilled getTime al re he ns se ch now s
          | Rejected err healthResult \<Rightarrow>
              fetchAll_rejected err (Some (outstanding ! i)) healthResult s),
         take i outstanding @ drop (Suc i) outstanding)
      else (s, outstanding))"

definition run ::
  "(string \<Rightarrow> int number) \<Rightarrow> ('al, 're, 'he, 'se) Event list
     \<Rightarrow> ('al, 're, 'he, 'se) ProviderState \<times> ClusterConnection list
     \<Rightarrow> ('al, 're, 'he, 'se) ProviderState \<times> ClusterConnection list" where
  "run getTime events cfg = foldl (\<lambda>c e. step getTime e c) cfg events"

section \<open>A provider with two connections\<close>

definition exProd :: ClusterConnection where
  "exProd = \<lparr> label = ''prod'', baseUrl = ''http://es-prod:9200'', username = [], password = [] \<rparr>"

definition exStaging :: ClusterConnection where
  "exStaging = \<lparr> label = ''staging'', baseUrl = ''http://es-staging:9200'',
                  username = [], password = [] \<rparr>"

definition exState :: "(unit, unit, unit, unit) ProviderState" where
  "exState =
     \<lparr> snapshot = None, healthHistory = [], loading = False, refreshing = False, error = None,
       connectionFailed = False, clusters = [exProd, exStaging], activeClusterLabel = ''prod'',
       lastUpdated = None, healthCheckDone = True, toasts = [] \<rparr>"

text \<open>The edit form that renames \<open>staging\<close> to \<open>prod\<close>.\<close>

definition exRename :: CreateClusterInput where
  "exRename = \<lparr> CreateClusterInput.label = ''prod'',
                 CreateClusterInput.baseUrl = ''http://es-staging:9200/'',
                 CreateClusterInput.username = None, CreateClusterInput.password = None \<rparr>"

text \<open>A response \<open>500\<close> as \<open>request\<close> throws it, and a failed probe.\<close>

definition exHttp500 :: Thrown where
  "exHttp500 = ErrorObject ''Error'' ''Elasticsearch 500 Internal Server Error''"

definition exProbeDown :: HealthCheckResult where
  "exProbeDown = \<lparr> success = False,
                    HealthCheckResult.error = Some ''Elasticsearch 503 Service Unavailable'' \<rparr>"

text \<open>A probe that succeeds; the timeout as \<open>request\<close> throws it; a response
  \<open>504\<close>, whose status text holds the word \<open>Timeout\<close>.\<close>

definition exProbeUp :: HealthCheckResult where
  "exProbeUp = \<lparr> success = True, HealthCheckResult.error = None \<rparr>"

definition exTimeout :: Thrown where
  "exTimeout = ErrorObject ''Error'' ''Request timeout''"

definition exHttp504 :: Thrown where
  "exHttp504 = ErrorObject ''Error'' ''Elasticsearch 504 Gateway Timeout''"

text \<open>The nodes that the two clusters report.\<close>

definition exProdNodes :: "NodeInfo list" where
  "exProdNodes = [\<lparr> nodeRole = ''hm'', name = ''prod-1'', ip = None, version = ''8.15.0'',
                    uptime = ''3d'', upgradeOrder = Some None \<rparr>]"

definition exStagingNodes :: "NodeInfo list" where
  "exStagingNodes = [\<lparr> nodeRole = ''hm'', name = ''staging-1'', ip = None, version = ''8.19.0'',
                       uptime = ''1h'', upgradeOrder = Some None \<rparr>]"

text \<open>The connection that \<open>addCluster\<close> builds from the form.\<close>

definition newClusterOf :: "CreateClusterInput \<Rightarrow> ClusterConnection" where
  "newClusterOf input =
     \<lparr> label = trim (orElse (CreateClusterInput.label input)
                        (dropTrailingSlash (trim (CreateClusterInput.baseUrl input)))),
       baseUrl = dropTrailingSlash (trim (CreateClusterInput.baseUrl input)),
       username = trimOrEmpty (CreateClusterInput.username input),
       password = trimOrEmpty (CreateClusterInput.password input) \<rparr>"

text \<open>
  An execution: a cycle starts for \<open>prod\<close>; the user selects \<open>staging\<close>; a cycle
  starts for \<open>staging\<close> and settles with the nodes of \<open>staging\<close>; then the cycle of
  \<open>prod\<close> settles with the nodes of \<open>prod\<close>.
\<close>

definition exSwitchRun :: "(unit, unit, unit, unit) Event list" where
  "exSwitchRun =
     [CallFetchAll,
      SelectCluster ''staging'',
      CallFetchAll,
      Settle 1 (Fulfilled [] [] () exStagingNodes () [] ''2024-05-01T10:00:07.000Z''),
      Settle 0 (Fulfilled [] [] () exProdNodes () [] ''2024-05-01T10:00:08.000Z'')]"

section \<open>Version comparison\<close>

lemma compareLoop_range: "compareLoop p1 p2 m i \<in> {- 1, 0, 1}"
proof (induction p1 p2 m i rule: compareLoop.induct)
  case (1 parts1 parts2 maxLength i)
  then show ?case
    by (subst compareLoop.simps) (auto simp: Let_def)
qed

lemma compareLoop_zero_iff:
  "compareLoop p1 p2 m i = 0 \<longleftrightarrow>
     (\<forall>k. i \<le> k \<and> k < m \<longrightarrow> orZero (itemAt p1 k) = orZero (itemAt p2 k))"
proof (induction p1 p2 m i rule: compareLoop.induct)
  case (1 parts1 parts2 maxLength i)
  show ?case
  proof (cases "i < maxLength")
    case False
    then show ?thesis by (subst compareLoop.simps) auto
  next
    case True
    show ?thesis
    proof (cases "orZero (itemAt parts1 i) = orZero (itemAt parts2 i)")
      case False
      then have "compareLoop parts1 parts2 maxLength i \<noteq> 0"
        by (subst compareLoop.simps) (auto simp: Let_def True)
      moreover have "\<not> (\<forall>k. i \<le> k \<and> k < maxLength \<longrightarrow> orZero (itemAt parts1 k) = orZero (itemAt parts2 k))"
        using False True by auto
      ultimately show ?thesis by simp
    next
      case eq: True
      have step: "compareLoop parts1 parts2 maxLength i = compareLoop parts1 parts2 maxLength (i + 1)"
        by (subst compareLoop.simps) (simp add: Let_def True eq)
      have ih: "compareLoop parts1 parts2 maxLength (i + 1) = 0 \<longleftrightarrow>
          (\<forall>k. i + 1 \<le> k \<and> k < maxLength \<longrightarrow> orZero (itemAt parts1 k) = orZero (itemAt parts2 k))"
        using "1.IH"[OF True refl refl] eq by simp
      have "(\<forall>k. i \<le> k \<and> k < maxLength \<longrightarrow> orZero (itemAt parts1 k) = orZero (itemAt parts2 k)) \<longleftrightarrow>
          (\<forall>k. i + 1 \<le> k \<and> k < maxLength \<longrightarrow> orZero (itemAt parts1 k) = orZero (itemAt parts2 k))"
        using eq by (metis Suc_eq_plus1 Suc_leI le_neq_implies_less add_leD1)
      then show ?thesis using step ih by simp
    qed
  qed
qed

lemma orZero_at_map:
  "orZero (itemAt (map Number ss) k) = padZero n (map (\<lambda>s. orZero (Some (Number s))) ss) ! k"
  if "k < n" "length ss \<le> n"
  using that by (auto simp: itemAt_def padZero_def nth_append)

lemma length_padZero: "length xs \<le> n \<Longrightarrow> length (padZero n xs) = n"
  by (simp add: padZero_def)

lemma compareVersions_zero_iff:
  "compareVersions Number v1 v2 = 0 \<longleftrightarrow> sameNumericValue Number v1 v2"
proof -
  let ?s1 = "split CHR ''.'' v1" and ?s2 = "split CHR ''.'' v2"
  let ?n = "max (length ?s1) (length ?s2)"
  let ?a = "padZero ?n (segmentValues Number v1)" and ?b = "padZero ?n (segmentValues Number v2)"
  have la: "length ?a = ?n" and lb: "length ?b = ?n"
    by (simp_all add: length_padZero segmentValues_def)
  have "compareVersions Number v1 v2 = 0 \<longleftrightarrow>
        (\<forall>k < ?n. orZero (itemAt (map Number ?s1) k) = orZero (itemAt (map Number ?s2) k))"
    by (simp add: compareVersions_def Let_def compareLoop_zero_iff)
  also have "\<dots> \<longleftrightarrow> (\<forall>k < ?n. ?a ! k = ?b ! k)"
    by (simp add: orZero_at_map[where n = ?n] segmentValues_def)
  also have "\<dots> \<longleftrightarrow> ?a = ?b"
    using la lb by (auto simp: list_eq_iff_nth_eq)
  also have "\<dots> \<longleftrightarrow> sameNumericValue Number v1 v2"
    by (simp add: sameNumericValue_def Let_def segmentValues_def)
  finally show ?thesis .
qed

lemma split_nonempty: "split c xs \<noteq> []"
  by (induction xs) (auto split: list.splits)

lemma split_append_sep: "split c (xs @ c # ys) = split c xs @ split c ys"
proof (induction xs)
  case Nil
  then show ?case by simp
next
  case (Cons x xs)
  obtain p ps where p: "split c xs = p # ps"
    using split_nonempty[of c xs] by (cases "split c xs") auto
  show ?case using Cons p by simp
qed

lemma split_no_sep: "c \<notin> set w \<Longrightarrow> split c w = [w]"
  by (induction w) auto

lemma split_repeated:
  assumes "c \<notin> set w"
  shows "split c (v @ concat (replicate k (c # w))) = split c v @ replicate k w"
proof (induction k arbitrary: v)
  case 0
  then show ?case by simp
next
  case (Suc k)
  have "split c (v @ concat (replicate (Suc k) (c # w)))
          = split c ((v @ c # w) @ concat (replicate k (c # w)))"
    by simp
  also have "\<dots> = split c (v @ c # w) @ replicate k w"
    by (rule Suc)
  also have "split c (v @ c # w) = split c v @ [w]"
    by (simp only: split_append_sep split_no_sep[OF assms])
  finally show ?case by (simp add: replicate_append_same)
qed

lemma split_trailing_zeros:
  "split CHR ''.'' (v @ concat (replicate k ''.0'')) = split CHR ''.'' v @ replicate k ''0''"
  using split_repeated[of "CHR ''.''" "''0''" v k] by simp

lemma sameNumericValue_trailing_zeros:
  assumes "orZero (Some (Number ''0'')) = 0"
  shows "sameNumericValue Number v (v @ concat (replicate k ''.0''))"
proof -
  have "segmentValues Number (v @ concat (replicate k ''.0''))
          = segmentValues Number v @ replicate k 0"
    using assms by (simp add: segmentValues_def split_trailing_zeros)
  then show ?thesis
    by (simp add: sameNumericValue_def Let_def padZero_def max_def)
qed

text \<open>
  C3. For every pair of version strings, \<open>compareVersions\<close> returns one of -1, 0, 1;
  when the two strings denote the same numbers segment by segment, a missing trailing
  segment reading as zero, it returns 0; in particular it returns 0 for a version and
  the same version with any number of segments \<open>.0\<close> added (as \<open>8.15\<close> and
  \<open>8.15.0\<close>), \<open>Number\<close> of \<open>0\<close> being zero.
\<close>

theorem compareVersions_equal_value:
  "compareVersions Number v1 v2 \<in> {- 1, 0, 1}
   \<and> (sameNumericValue Number v1 v2 \<longrightarrow> compareVersions Number v1 v2 = 0)
   \<and> (orZero (Some (Number ''0'')) = 0 \<longrightarrow>
        compareVersions Number v (v @ concat (replicate k ''.0'')) = 0
        \<and> compareVersions Number (v @ concat (replicate k ''.0'')) v = 0)"
proof -
  have "compareVersions Number v1 v2 \<in> {- 1, 0, 1}"
    by (simp add: compareVersions_def Let_def compareLoop_range[simplified])
  moreover have "sameNumericValue Number v1 v2 \<longrightarrow> compareVersions Number v1 v2 = 0"
    by (simp add: compareVersions_zero_iff)
  moreover have "orZero (Some (Number ''0'')) = 0 \<longrightarrow>
        compareVersions Number v (v @ concat (replicate k ''.0'')) = 0
        \<and> compareVersions Number (v @ concat (replicate k ''.0'')) v = 0"
  proof
    assume z: "orZero (Some (Number ''0'')) = 0"
    have a: "sameNumericValue Number v (v @ concat (replicate k ''.0''))"
      using z by (rule sameNumericValue_trailing_zeros[where Number = Number])
    then have "sameNumericValue Number (v @ concat (replicate k ''.0'')) v"
      by (simp add: sameNumericValue_def Let_def max.commute eq_commute)
    then show "compareVersions Number v (v @ concat (replicate k ''.0'')) = 0
        \<and> compareVersions Number (v @ concat (replicate k ''.0'')) v = 0"
      using a by (simp add: compareVersions_zero_iff)
  qed
  ultimately show ?thesis by blast
qed

theorem compareVersions_equal_value_witness:
  "sameNumericValue NumberDec ''8.15'' ''8.15.0''
   \<and> compareVersions NumberDec ''8.15'' ''8.15.0'' = 0
   \<and> orZero (Some (NumberDec ''0'')) = 0
   \<and> compareVersions NumberDec ''8.15.0.0'' ''8.15'' = 0"
proof -
  have h: "sameNumericValue NumberDec ''8.15'' ''8.15.0''"
    by code_simp
  have z: "orZero (Some (NumberDec ''0'')) = 0"
    by code_simp
  have "compareVersions NumberDec (''8.15'' @ concat (replicate 2 ''.0'')) ''8.15'' = 0"
    using z compareVersions_equal_value[of NumberDec _ _ "''8.15''" 2] by blast
  moreover have "''8.15'' @ concat (replicate 2 ''.0'') = ''8.15.0.0''"
    by (simp add: numeral_2_eq_2)
  ultimately have e: "compareVersions NumberDec ''8.15.0.0'' ''8.15'' = 0" by simp
  show ?thesis
    using h z e compareVersions_equal_value[of NumberDec "''8.15''" "''8.15.0''"] by blast
qed

section \<open>Upgrade tiers and sequential positions\<close>

lemma startsWith_single: "startsWith s [c] \<longleftrightarrow> (\<exists>t. s = c # t)"
  by (cases s) auto

lemma includesStr_single: "includesStr s [c] \<longleftrightarrow> c \<in> set s"
  by (induction s) (auto simp: startsWith_single)

lemma calculateUpgradeOrder_cascade:
  "calculateUpgradeOrder Number n hv =
     (if (\<exists>h. hv = Some h \<and> h \<noteq> [] \<and> version n \<noteq> []
              \<and> compareVersions Number (version n) h \<ge> 0) then None
      else if CHR ''f'' \<in> set (nodeRole n) then Some 1
      else if CHR ''c'' \<in> set (nodeRole n) then Some 2
      else if CHR ''w'' \<in> set (nodeRole n) then Some 3
      else if CHR ''h'' \<in> set (nodeRole n) then Some 4
      else if CHR ''d'' \<in> set (nodeRole n) \<or> CHR ''s'' \<in> set (nodeRole n) then Some 5
      else if CHR ''l'' \<in> set (nodeRole n) \<or> CHR ''i'' \<in> set (nodeRole n)
              \<or> CHR ''t'' \<in> set (nodeRole n) \<or> CHR ''r'' \<in> set (nodeRole n)
              \<or> CHR ''v'' \<in> set (nodeRole n) then Some 6
      else if CHR ''m'' \<in> set (nodeRole n) then Some 7
      else Some 8)"
  by (cases hv) (simp_all add: calculateUpgradeOrder_def alreadyUpgraded_def Let_def includesStr_single)

lemma mset_insertBy: "mset (insertBy cmp x ys) = add_mset x (mset ys)"
  by (induction ys) auto

lemma mset_sortBy: "mset (sortBy cmp xs) = mset xs"
  by (induction xs) (auto simp: sortBy_def mset_insertBy)

lemma set_insertBy: "set (insertBy cmp x ys) = insert x (set ys)"
  by (induction ys) auto

lemma set_sortBy: "set (sortBy cmp xs) = set xs"
  by (induction xs) (auto simp: sortBy_def set_insertBy)

lemma length_sortBy: "length (sortBy cmp xs) = length xs"
  using mset_sortBy[of cmp xs] by (metis size_mset)

lemma sorted_insertBy:
  assumes tot: "\<And>a b. a \<in> A \<Longrightarrow> b \<in> A \<Longrightarrow> \<not> cmpValue (cmp a b) \<le> 0 \<Longrightarrow> cmpValue (cmp b a) \<le> 0"
      and tr: "\<And>a b c. a \<in> A \<Longrightarrow> b \<in> A \<Longrightarrow> c \<in> A \<Longrightarrow> cmpValue (cmp a b) \<le> 0
                 \<Longrightarrow> cmpValue (cmp b c) \<le> 0 \<Longrightarrow> cmpValue (cmp a c) \<le> 0"
      and "x \<in> A" "set ys \<subseteq> A"
      and "sorted_wrt (\<lambda>a b. cmpValue (cmp a b) \<le> 0) ys"
  shows "sorted_wrt (\<lambda>a b. cmpValue (cmp a b) \<le> 0) (insertBy cmp x ys)"
  using assms(3-)
proof (induction ys)
  case Nil
  then show ?case by simp
next
  case (Cons y ys)
  show ?case
  proof (cases "cmpValue (cmp x y) \<le> 0")
    case True
    have "\<forall>z \<in> set ys. cmpValue (cmp x z) \<le> 0"
      using Cons.prems True tr[of x y] by auto
    then show ?thesis using True Cons.prems by simp
  next
    case False
    have "cmpValue (cmp y x) \<le> 0" using tot[of x y] False Cons.prems by auto
    then show ?thesis using False Cons by (auto simp: set_insertBy)
  qed
qed

lemma sorted_sortBy:
  assumes tot: "\<And>a b. a \<in> A \<Longrightarrow> b \<in> A \<Longrightarrow> \<not> cmpValue (cmp a b) \<le> 0 \<Longrightarrow> cmpValue (cmp b a) \<le> 0"
      and tr: "\<And>a b c. a \<in> A \<Longrightarrow> b \<in> A \<Longrightarrow> c \<in> A \<Longrightarrow> cmpValue (cmp a b) \<le> 0
                 \<Longrightarrow> cmpValue (cmp b c) \<le> 0 \<Longrightarrow> cmpValue (cmp a c) \<le> 0"
      and "set xs \<subseteq> A"
  shows "sorted_wrt (\<lambda>a b. cmpValue (cmp a b) \<le> 0) (sortBy cmp xs)"
  using assms(3)
proof (induction xs)
  case Nil
  then show ?case by (simp add: sortBy_def)
next
  case (Cons x xs)
  have "sorted_wrt (\<lambda>a b. cmpValue (cmp a b) \<le> 0) (insertBy cmp x (sortBy cmp xs))"
    by (rule sorted_insertBy[where A = A, OF tot tr]) (use Cons in \<open>auto simp: set_sortBy\<close>)
  then show ?case by (simp add: sortBy_def)
qed

lemma map_node_assignSequential: "map node (assignSequential c ns) = ns"
  by (induction ns arbitrary: c) auto

lemma assignSequential_null:
  "r \<in> set (assignSequential c ns) \<Longrightarrow> isNullOrder (node r) \<Longrightarrow> sequentialOrder r = None"
  by (induction ns arbitrary: c) (auto split: if_splits)

lemma assignSequential_positions:
  "map sequentialOrder (filter (\<lambda>r. \<not> isNullOrder (node r)) (assignSequential c ns))
     = map Some [c + 1 ..< c + 1 + length (filter (\<lambda>n. \<not> isNullOrder n) ns)]"
proof (induction ns arbitrary: c)
  case Nil
  then show ?case by simp
next
  case (Cons n ns)
  show ?case
  proof (cases "isNullOrder n")
    case True
    then show ?thesis using Cons by simp
  next
    case False
    have "[c + 1 ..< c + 1 + Suc (length (filter (\<lambda>n. \<not> isNullOrder n) ns))]
          = (c + 1) # [c + 1 + 1 ..< c + 1 + 1 + length (filter (\<lambda>n. \<not> isNullOrder n) ns)]"
      by (simp add: upt_rec)
    then show ?thesis using False Cons[of "c + 1"] by simp
  qed
qed



lemma calculateUpgradeOrder_null_baseline:
  "\<exists>k. calculateUpgradeOrder Number n None = Some k \<and> 1 \<le> k \<and> k \<le> 8"
  by (simp add: calculateUpgradeOrder_def alreadyUpgraded_def Let_def)



lemma cmpMulti_le_iff:
  assumes "parseUptime parseFloat (uptimeOr0s a) \<noteq> NaN" "parseUptime parseFloat (uptimeOr0s b) \<noteq> NaN"
  shows "cmpValue (cmpMultiVersion parseFloat a b) \<le> 0 \<longleftrightarrow> nullsFirstOrder parseFloat a b"
proof -
  obtain x y where xy: "parseUptime parseFloat (uptimeOr0s a) = Num x"
      "parseUptime parseFloat (uptimeOr0s b) = Num y"
    using assms by (metis number.exhaust)
  show ?thesis
    by (auto simp: cmpMultiVersion_def nullsFirstOrder_def upgradesBefore_def geNum_def
        uptimeSeconds_def cmpValue_def Let_def xy sgn_if)
qed


lemma geNum_trans: "geNum x y \<Longrightarrow> geNum y z \<Longrightarrow> geNum x z"
  by (cases x; cases y; cases z) (auto simp: geNum_def)

lemma upgradesBefore_trans:
  "upgradesBefore parseFloat a b \<Longrightarrow> upgradesBefore parseFloat b c \<Longrightarrow> upgradesBefore parseFloat a c"
  unfolding upgradesBefore_def using geNum_trans by (metis order_less_trans)









lemma newSet_step_set:
  "set (foldl (\<lambda>acc x. if x \<in> set acc then acc else acc @ [x]) acc xs) = set acc \<union> set xs"
  by (induction xs arbitrary: acc) auto

lemma newSet_step_distinct:
  "distinct acc \<Longrightarrow> distinct (foldl (\<lambda>acc x. if x \<in> set acc then acc else acc @ [x]) acc xs)"
  by (induction xs arbitrary: acc) auto

lemma set_newSet: "set (newSet xs) = set xs"
  by (simp add: newSet_def newSet_step_set)

lemma distinct_newSet: "distinct (newSet xs)"
  by (simp add: newSet_def newSet_step_distinct)

lemma length_newSet: "length (newSet xs) = card (set xs)"
  using distinct_card[OF distinct_newSet, of xs] by (simp add: set_newSet)

lemma cmpSame_le_iff:
  assumes "\<not> isNullOrder a" "\<not> isNullOrder b"
    "uptimeSeconds parseFloat a \<noteq> NaN" "uptimeSeconds parseFloat b \<noteq> NaN"
  shows "cmpValue (cmpSameVersion parseFloat a b) \<le> 0 \<longleftrightarrow> upgradesBefore parseFloat a b"
proof -
  obtain x y where xy: "parseUptime parseFloat (uptimeOr0s a) = Num x"
      "parseUptime parseFloat (uptimeOr0s b) = Num y"
    using assms unfolding uptimeSeconds_def by (metis number.exhaust)
  show ?thesis
    using assms(1,2)
    by (auto simp: cmpSameVersion_def upgradesBefore_def geNum_def
        uptimeSeconds_def cmpValue_def Let_def xy sgn_if)
qed

lemma upgradesBefore_total:
  assumes "uptimeSeconds parseFloat a \<noteq> NaN" "uptimeSeconds parseFloat b \<noteq> NaN"
  shows "\<not> upgradesBefore parseFloat a b \<Longrightarrow> upgradesBefore parseFloat b a"
proof -
  obtain x y where xy: "uptimeSeconds parseFloat a = Num x" "uptimeSeconds parseFloat b = Num y"
    using assms by (metis number.exhaust)
  show "\<not> upgradesBefore parseFloat a b \<Longrightarrow> upgradesBefore parseFloat b a"
    by (auto simp: upgradesBefore_def geNum_def xy)
qed

lemma sorted_same:
  assumes "\<forall>n \<in> set ns. \<not> isNullOrder n \<and> uptimeSeconds parseFloat n \<noteq> NaN"
  shows "sorted_wrt (upgradesBefore parseFloat) (sortBy (cmpSameVersion parseFloat) ns)"
proof -
  let ?A = "set ns"
  have "sorted_wrt (\<lambda>a b. cmpValue (cmpSameVersion parseFloat a b) \<le> 0)
          (sortBy (cmpSameVersion parseFloat) ns)"
  proof (rule sorted_sortBy[where A = ?A])
    fix a b assume "a \<in> ?A" "b \<in> ?A" "\<not> cmpValue (cmpSameVersion parseFloat a b) \<le> 0"
    then show "cmpValue (cmpSameVersion parseFloat b a) \<le> 0"
      using assms cmpSame_le_iff[of a b parseFloat] cmpSame_le_iff[of b a parseFloat]
        upgradesBefore_total[of parseFloat a b] by blast
  next
    fix a b c assume "a \<in> ?A" "b \<in> ?A" "c \<in> ?A"
      "cmpValue (cmpSameVersion parseFloat a b) \<le> 0" "cmpValue (cmpSameVersion parseFloat b c) \<le> 0"
    then show "cmpValue (cmpSameVersion parseFloat a c) \<le> 0"
      using assms cmpSame_le_iff[of a b parseFloat] cmpSame_le_iff[of b c parseFloat]
        cmpSame_le_iff[of a c parseFloat] upgradesBefore_trans[of parseFloat a b c] by blast
  qed simp
  then show ?thesis
    by (rule sorted_wrt_mono_rel[rotated])
       (use assms cmpSame_le_iff[of _ _ parseFloat] in \<open>auto simp: set_sortBy\<close>)
qed

lemma assignSequential_all:
  "\<forall>n \<in> set ns. \<not> isNullOrder n \<Longrightarrow>
   map sequentialOrder (assignSequential c ns) = map Some [c + 1 ..< c + 1 + length ns]"
  using assignSequential_positions[of c ns] assignSequential_null[of _ c ns]
    map_node_assignSequential[of c ns]
  by (metis (mono_tags, lifting) filter_True list.set_map imageI)



lemma sameVersion_result:
  "allSameVersion (nodes snap) \<Longrightarrow>
   nodesWithSequentialOrder Number parseFloat (Some snap) =
     assignSequential 0 (sortBy (cmpSameVersion parseFloat)
       (map (\<lambda>n. n\<lparr>upgradeOrder := Some (calculateUpgradeOrder Number n None)\<rparr>) (nodes snap)))"
  by (simp add: nodesWithSequentialOrder_def Let_def)


lemma recomputed_not_null:
  "\<not> isNullOrder (n\<lparr>upgradeOrder := Some (calculateUpgradeOrder Number n None)\<rparr>)"
proof -
  obtain k where "calculateUpgradeOrder Number n None = Some k"
    using calculateUpgradeOrder_null_baseline[of Number n] by blast
  then show ?thesis by (simp add: isNullOrder_def)
qed

lemma recomputed_tier:
  "\<exists>k. upgradeOrder (n\<lparr>upgradeOrder := Some (calculateUpgradeOrder Number n None)\<rparr>) = Some (Some k)
       \<and> 1 \<le> k \<and> k \<le> 8"
  using calculateUpgradeOrder_null_baseline[of Number n] by simp

lemma uptimeSeconds_ignores_order:
  "uptimeSeconds parseFloat (n\<lparr>upgradeOrder := x\<rparr>) = uptimeSeconds parseFloat n"
  by (simp add: uptimeSeconds_def uptimeOr0s_def)

lemma same_version_general:
  fixes Number :: "string \<Rightarrow> 'n::{linorder,zero} number"
    and parseFloat :: "string \<Rightarrow> 'u::{linorder,zero,times,numeral} number"
    and snap :: "('al, 're, 'he, 'se) MonitoringSnapshot"
  assumes same: "allSameVersion (nodes snap)"
  defines "res \<equiv> nodesWithSequentialOrder Number parseFloat (Some snap)"
  shows "mset (map node res) =
           mset (map (\<lambda>n. n\<lparr>upgradeOrder := Some (calculateUpgradeOrder Number n None)\<rparr>) (nodes snap))"
    and "\<forall>r \<in> set res. \<exists>k. upgradeOrder (node r) = Some (Some k) \<and> 1 \<le> k \<and> k \<le> 8"
    and "map sequentialOrder res = map Some [1 ..< 1 + length (nodes snap)]"
    and "(\<forall>n \<in> set (nodes snap). uptimeSeconds parseFloat n \<noteq> NaN) \<longrightarrow>
           sorted_wrt (upgradesBefore parseFloat) (map node res)"
proof -
  let ?re = "map (\<lambda>n. n\<lparr>upgradeOrder := Some (calculateUpgradeOrder Number n None)\<rparr>) (nodes snap)"
  let ?so = "sortBy (cmpSameVersion parseFloat) ?re"
  have res: "res = assignSequential 0 ?so"
    unfolding res_def by (rule sameVersion_result[OF same])
  have nodes: "map node res = ?so"
    by (simp add: res map_node_assignSequential)
  show "mset (map node res) = mset ?re"
    by (simp add: nodes mset_sortBy)
  have nn: "\<forall>n \<in> set ?so. \<not> isNullOrder n"
    unfolding set_sortBy using recomputed_not_null[where Number = Number] by (simp add: image_iff)
  have tiers: "\<forall>n \<in> set ?so. \<exists>k. upgradeOrder n = Some (Some k) \<and> 1 \<le> k \<and> k \<le> 8"
    unfolding set_sortBy using recomputed_tier[where Number = Number] by (simp add: image_iff)
  show "\<forall>r \<in> set res. \<exists>k. upgradeOrder (node r) = Some (Some k) \<and> 1 \<le> k \<and> k \<le> 8"
  proof
    fix r assume "r \<in> set res"
    then have "node r \<in> set ?so" unfolding nodes[symmetric] by simp
    then show "\<exists>k. upgradeOrder (node r) = Some (Some k) \<and> 1 \<le> k \<and> k \<le> 8"
      using tiers by blast
  qed
  show "map sequentialOrder res = map Some [1 ..< 1 + length (nodes snap)]"
    using assignSequential_all[OF nn, of 0] by (simp add: res length_sortBy)
  show "(\<forall>n \<in> set (nodes snap). uptimeSeconds parseFloat n \<noteq> NaN) \<longrightarrow>
           sorted_wrt (upgradesBefore parseFloat) (map node res)"
  proof
    assume "\<forall>n \<in> set (nodes snap). uptimeSeconds parseFloat n \<noteq> NaN"
    then have "\<forall>n \<in> set ?re. \<not> isNullOrder n \<and> uptimeSeconds parseFloat n \<noteq> NaN"
      using recomputed_not_null[where Number = Number] by (simp add: image_iff uptimeSeconds_ignores_order)
    then show "sorted_wrt (upgradesBefore parseFloat) (map node res)"
      unfolding nodes by (rule sorted_same)
  qed
qed

lemma hotRole_tier: "hotRole (nodeRole h) \<Longrightarrow> calculateUpgradeOrder Number h None = Some 4"
  by (simp add: calculateUpgradeOrder_cascade hotRole_def)

lemma masterRole_tier: "masterRole (nodeRole m) \<Longrightarrow> calculateUpgradeOrder Number m None = Some 7"
  by (simp add: calculateUpgradeOrder_cascade masterRole_def)

lemma allSameVersion_pair: "version a = version b \<Longrightarrow> allSameVersion [a, b]"
  by (simp add: allSameVersion_def newSet_def)

lemma hot_master_example:
  assumes "hotRole (nodeRole h)" "masterRole (nodeRole m)"
    "version h = ''8.15.0''" "version m = ''8.15.0''"
    "nodes snap = [h, m] \<or> nodes snap = [m, h]"
  shows "nodesWithSequentialOrder Number parseFloat (Some snap) =
       [\<lparr>node = h\<lparr>upgradeOrder := Some (Some 4)\<rparr>, sequentialOrder = Some 1\<rparr>,
        \<lparr>node = m\<lparr>upgradeOrder := Some (Some 7)\<rparr>, sequentialOrder = Some 2\<rparr>]"
proof -
  have same: "allSameVersion (nodes snap)"
    using assms allSameVersion_pair[of h m] allSameVersion_pair[of m h] by auto
  have c1: "cmpSameVersion parseFloat (h\<lparr>upgradeOrder := Some (Some 4)\<rparr>) (m\<lparr>upgradeOrder := Some (Some 7)\<rparr>) = Num (- 1)"
    by (simp add: cmpSameVersion_def isNullOrder_def orderOr999_def)
  have c2: "cmpSameVersion parseFloat (m\<lparr>upgradeOrder := Some (Some 7)\<rparr>) (h\<lparr>upgradeOrder := Some (Some 4)\<rparr>) = Num 1"
    by (simp add: cmpSameVersion_def isNullOrder_def orderOr999_def)
  show ?thesis
    using assms(5)
    by (auto simp: sameVersion_result[OF same] hotRole_tier[OF assms(1)] masterRole_tier[OF assms(2)]
        sortBy_def c1 c2 cmpValue_def isNullOrder_def)
qed



lemma cmpMulti_le_iff':
  assumes "uptimeSeconds parseFloat a \<noteq> NaN" "uptimeSeconds parseFloat b \<noteq> NaN"
  shows "cmpValue (cmpMultiVersion parseFloat a b) \<le> 0 \<longleftrightarrow> nullsFirstOrder parseFloat a b"
  using assms cmpMulti_le_iff[of parseFloat a b] by (simp add: uptimeSeconds_def)






lemma exHighest:
  "getHighestVersion NumberDec (filter (\<lambda>v. v \<noteq> []) (map CatNodesRow.version exRows)) = Some ''8.19.0''"
  by code_simp







text \<open>
  C6. For every node and highest-version baseline, \<open>calculateUpgradeOrder\<close> applies its
  rules in order, the first that matches deciding: a node with a version, at or above a
  given non-empty highest version, has no tier; otherwise role letter \<open>f\<close> gives 1,
  \<open>c\<close> 2, \<open>w\<close> 3, \<open>h\<close> 4, \<open>d\<close> or \<open>s\<close> 5, any of \<open>l i t r v\<close> 6,
  \<open>m\<close> 7, and anything else 8.
\<close>

theorem calculateUpgradeOrder_tiers:
  "calculateUpgradeOrder Number n hv =
     (if (\<exists>h. hv = Some h \<and> h \<noteq> [] \<and> version n \<noteq> []
              \<and> compareVersions Number (version n) h \<ge> 0) then None
      else if CHR ''f'' \<in> set (nodeRole n) then Some 1
      else if CHR ''c'' \<in> set (nodeRole n) then Some 2
      else if CHR ''w'' \<in> set (nodeRole n) then Some 3
      else if CHR ''h'' \<in> set (nodeRole n) then Some 4
      else if CHR ''d'' \<in> set (nodeRole n) \<or> CHR ''s'' \<in> set (nodeRole n) then Some 5
      else if CHR ''l'' \<in> set (nodeRole n) \<or> CHR ''i'' \<in> set (nodeRole n)
              \<or> CHR ''t'' \<in> set (nodeRole n) \<or> CHR ''r'' \<in> set (nodeRole n)
              \<or> CHR ''v'' \<in> set (nodeRole n) then Some 6
      else if CHR ''m'' \<in> set (nodeRole n) then Some 7
      else Some 8)"
  by (rule calculateUpgradeOrder_cascade)

theorem calculateUpgradeOrder_tiers_witness:
  "calculateUpgradeOrder NumberDec exHot (Some ''8.19.0'') = Some 4 \<and>
   calculateUpgradeOrder NumberDec exHot (Some ''8.15'') = None \<and>
   calculateUpgradeOrder NumberDec exMaster None = Some 7"
proof -
  have lt: "compareVersions NumberDec ''8.15.0'' ''8.19.0'' = - 1"
    and eq: "compareVersions NumberDec ''8.15.0'' ''8.15'' = 0"
    by code_simp+
  show ?thesis
    using calculateUpgradeOrder_tiers[of NumberDec exHot "Some ''8.19.0''"]
      calculateUpgradeOrder_tiers[of NumberDec exHot "Some ''8.15''"]
      calculateUpgradeOrder_tiers[of NumberDec exMaster None] lt eq
    by (simp add: exHot_def exMaster_def)
qed



text \<open>
  C8. When all nodes share one version, the tiers are recomputed against a null baseline:
  the nodes of the result are those of the snapshot with that tier, no tier is null, and
  the nodes carry the positions 1..N in the order of the result, which is tier ascending
  with uptime descending (where the uptimes are numbers). In particular a hot-role node
  and a master-role node, both at 8.15.0 and in either input order, come out as the hot
  node with tier 4 and position 1 and the master node with tier 7 and position 2.
\<close>

theorem same_version_sequential_order:
  fixes Number :: "string \<Rightarrow> 'n::{linorder,zero} number"
    and parseFloat :: "string \<Rightarrow> 'u::{linorder,zero,times,numeral} number"
    and snap snap2 :: "('al, 're, 'he, 'se) MonitoringSnapshot"
  shows "(allSameVersion (nodes snap) \<longrightarrow>
           (let res = nodesWithSequentialOrder Number parseFloat (Some snap)
            in mset (map node res) =
                 mset (map (\<lambda>n. n\<lparr>upgradeOrder := Some (calculateUpgradeOrder Number n None)\<rparr>)
                        (nodes snap))
             \<and> (\<forall>r \<in> set res. \<exists>k. upgradeOrder (node r) = Some (Some k) \<and> 1 \<le> k \<and> k \<le> 8)
             \<and> map sequentialOrder res = map Some [1 ..< 1 + length (nodes snap)]
             \<and> ((\<forall>n \<in> set (nodes snap). uptimeSeconds parseFloat n \<noteq> NaN) \<longrightarrow>
                   sorted_wrt (upgradesBefore parseFloat) (map node res))))
       \<and> (hotRole (nodeRole h) \<and> masterRole (nodeRole m)
            \<and> version h = ''8.15.0'' \<and> version m = ''8.15.0''
            \<and> (nodes snap2 = [h, m] \<or> nodes snap2 = [m, h]) \<longrightarrow>
           nodesWithSequentialOrder Number parseFloat (Some snap2) =
             [\<lparr>node = h\<lparr>upgradeOrder := Some (Some 4)\<rparr>, sequentialOrder = Some 1\<rparr>,
              \<lparr>node = m\<lparr>upgradeOrder := Some (Some 7)\<rparr>, sequentialOrder = Some 2\<rparr>])"
proof (intro conjI impI)
  assume same: "allSameVersion (nodes snap)"
  show "let res = nodesWithSequentialOrder Number parseFloat (Some snap)
        in mset (map node res) =
             mset (map (\<lambda>n. n\<lparr>upgradeOrder := Some (calculateUpgradeOrder Number n None)\<rparr>)
                    (nodes snap))
         \<and> (\<forall>r \<in> set res. \<exists>k. upgradeOrder (node r) = Some (Some k) \<and> 1 \<le> k \<and> k \<le> 8)
         \<and> map sequentialOrder res = map Some [1 ..< 1 + length (nodes snap)]
         \<and> ((\<forall>n \<in> set (nodes snap). uptimeSeconds parseFloat n \<noteq> NaN) \<longrightarrow>
               sorted_wrt (upgradesBefore parseFloat) (map node res))"
    unfolding Let_def by (intro conjI same_version_general[OF same])
next
  assume "hotRole (nodeRole h) \<and> masterRole (nodeRole m)
            \<and> version h = ''8.15.0'' \<and> version m = ''8.15.0''
            \<and> (nodes snap2 = [h, m] \<or> nodes snap2 = [m, h])"
  then show "nodesWithSequentialOrder Number parseFloat (Some snap2) =
             [\<lparr>node = h\<lparr>upgradeOrder := Some (Some 4)\<rparr>, sequentialOrder = Some 1\<rparr>,
              \<lparr>node = m\<lparr>upgradeOrder := Some (Some 7)\<rparr>, sequentialOrder = Some 2\<rparr>]"
    using hot_master_example[of h m snap2 Number parseFloat] by blast
qed

theorem same_version_sequential_order_witness:
  "allSameVersion (nodes exSameSnapshot)
   \<and> hotRole (nodeRole exHot) \<and> masterRole (nodeRole exMaster)
   \<and> version exHot = ''8.15.0'' \<and> version exMaster = ''8.15.0''
   \<and> nodes exSameSnapshot = [exMaster, exHot]
   \<and> nodesWithSequentialOrder NumberDec parseFloatDec (Some exSameSnapshot) =
       [\<lparr>node = exHot\<lparr>upgradeOrder := Some (Some 4)\<rparr>, sequentialOrder = Some 1\<rparr>,
        \<lparr>node = exMaster\<lparr>upgradeOrder := Some (Some 7)\<rparr>, sequentialOrder = Some 2\<rparr>]
   \<and> map sequentialOrder (nodesWithSequentialOrder NumberDec parseFloatDec (Some exSameSnapshot))
       = [Some 1, Some 2]"
proof -
  have same: "allSameVersion (nodes exSameSnapshot)"
    by (simp add: exSameSnapshot_def exMaster_def exHot_def allSameVersion_def newSet_def)
  have hot: "hotRole (nodeRole exHot)" and master: "masterRole (nodeRole exMaster)"
    by (simp_all add: exHot_def exMaster_def hotRole_def masterRole_def)
  have vs: "version exHot = ''8.15.0''" "version exMaster = ''8.15.0''"
    and ns: "nodes exSameSnapshot = [exMaster, exHot]"
    by (simp_all add: exHot_def exMaster_def exSameSnapshot_def)
  have ex: "nodesWithSequentialOrder NumberDec parseFloatDec (Some exSameSnapshot) =
       [\<lparr>node = exHot\<lparr>upgradeOrder := Some (Some 4)\<rparr>, sequentialOrder = Some 1\<rparr>,
        \<lparr>node = exMaster\<lparr>upgradeOrder := Some (Some 7)\<rparr>, sequentialOrder = Some 2\<rparr>]"
    using same_version_sequential_order[of exSameSnapshot NumberDec parseFloatDec exHot exMaster exSameSnapshot]
      hot master vs ns by blast
  show ?thesis
    using same hot master vs ns ex by simp
qed

section \<open>The health history\<close>

lemma map_of_mapSet: "map_of (mapSet m k v) = (map_of m)(k \<mapsto> v)"
  by (induction m) (auto simp: fun_eq_iff)

lemma keys_mapSet: "fst ` set (mapSet m k v) = insert k (fst ` set m)"
  by (induction m k v rule: mapSet.induct) auto

lemma distinct_mapSet: "distinct (map fst m) \<Longrightarrow> distinct (map fst (mapSet m k v))"
proof (induction m)
  case Nil
  then show ?case by simp
next
  case (Cons a m)
  obtain k' v' where a: "a = (k', v')" by (cases a)
  show ?case using Cons keys_mapSet[of m k v] by (auto simp: a)
qed

text \<open>The map after the \<open>forEach\<close>, started from any map.\<close>

lemma map_add_snoc: "m0 ++ map_of (ys @ [(t, x)]) = m0(t \<mapsto> x) ++ map_of ys"
proof -
  have "m0 ++ map_of (ys @ [(t, x)]) = m0 ++ ([t \<mapsto> x] ++ map_of ys)" by simp
  also have "\<dots> = (m0 ++ [t \<mapsto> x]) ++ map_of ys" by (simp only: map_add_assoc)
  also have "m0 ++ [t \<mapsto> x] = m0(t \<mapsto> x)" by simp
  finally show ?thesis .
qed

lemma foldl_mapSet_map_of:
  "map_of (foldl (\<lambda>m item. mapSet m (timestamp item) item) m0 xs)
     = map_of m0 ++ map_of (rev (map (\<lambda>r. (timestamp r, r)) xs))"
proof (induction xs arbitrary: m0)
  case Nil
  then show ?case by simp
next
  case (Cons x xs)
  let ?L = "rev (map (\<lambda>r. (timestamp r, r)) xs)"
  have "map_of (foldl (\<lambda>m item. mapSet m (timestamp item) item) (mapSet m0 (timestamp x) x) xs)
      = map_of (mapSet m0 (timestamp x) x) ++ map_of ?L"
    by (rule Cons)
  also have "\<dots> = (map_of m0)(timestamp x \<mapsto> x) ++ map_of ?L"
    by (simp only: map_of_mapSet)
  also have "\<dots> = map_of m0 ++ map_of (?L @ [(timestamp x, x)])"
    by (simp only: map_add_snoc)
  finally show ?case by simp
qed

lemma foldl_mapSet_distinct:
  "distinct (map fst m0) \<Longrightarrow>
   distinct (map fst (foldl (\<lambda>m item. mapSet m (timestamp item) item) m0 xs))"
  by (induction xs arbitrary: m0) (auto simp: distinct_mapSet)

lemma foldl_mapSet_keys:
  "fst ` set (foldl (\<lambda>m item. mapSet m (timestamp item) item) m0 xs)
     = fst ` set m0 \<union> timestamp ` set xs"
  by (induction xs arbitrary: m0) (simp_all add: keys_mapSet)

lemma foldl_mapSet_keyed:
  "\<forall>(k, v) \<in> set m0. timestamp v = k \<Longrightarrow>
   \<forall>(k, v) \<in> set (foldl (\<lambda>m item. mapSet m (timestamp item) item) m0 xs). timestamp v = k"
proof (induction xs arbitrary: m0)
  case Nil
  then show ?case by simp
next
  case (Cons x xs)
  have "\<forall>(k, v) \<in> set (mapSet m0 (timestamp x) x). timestamp v = k"
    using Cons.prems by (induction m0 "timestamp x" x rule: mapSet.induct) (auto split: if_splits)
  then show ?case using Cons.IH by simp
qed

lemma latest_append: "latest (xs @ ys) = latest xs ++ latest ys"
  by (simp add: latest_def)

lemma dom_latest: "dom (latest xs) = timestamp ` set xs"
  by (auto simp: latest_def dom_map_of_conv_image_fst image_iff)

lemma latest_timestamp: "latest xs k = Some r \<Longrightarrow> timestamp r = k \<and> r \<in> set xs"
  by (auto simp: latest_def dest!: map_of_SomeD)

lemma set_dedup: "set (dedup xs) = ran (latest xs)"
proof -
  let ?m = "foldl (\<lambda>m item. mapSet m (timestamp item) item) [] xs"
  have d: "distinct (map fst ?m)" by (rule foldl_mapSet_distinct) simp
  have "map_of ?m = latest xs" by (simp add: foldl_mapSet_map_of latest_def)
  then show ?thesis
    using ran_distinct[OF d] by (simp add: dedup_def mapValues_def)
qed

lemma timestamps_dedup: "map timestamp (dedup xs) = map fst (foldl (\<lambda>m item. mapSet m (timestamp item) item) [] xs)"
proof -
  have "\<forall>(k, v) \<in> set (foldl (\<lambda>m item. mapSet m (timestamp item) item) [] xs). timestamp v = k"
    by (rule foldl_mapSet_keyed) simp
  then show ?thesis by (auto simp: dedup_def mapValues_def)
qed

lemma distinct_dedup: "distinct (map timestamp (dedup xs))"
  unfolding timestamps_dedup by (rule foldl_mapSet_distinct) simp

lemma latest_eq_lastWithTimestamp: "latest xs t = lastWithTimestamp xs t"
proof (induction xs rule: rev_induct)
  case Nil
  then show ?case by (simp add: latest_def lastWithTimestamp_def)
next
  case (snoc x xs)
  then show ?case
    by (auto simp: latest_def lastWithTimestamp_def split: list.splits)
qed

lemma mergeHealthHistory_eq:
  "mergeHealthHistory getTime prev incoming
     = sliceLast 40 (sortBy (cmpTimestamp getTime) (dedup (prev @ incoming)))"
  by (simp add: mergeHealthHistory_def dedup_def)

lemma cmpTimestamp_le_iff:
  assumes "getTime (timestamp a) \<noteq> NaN" "getTime (timestamp b) \<noteq> NaN"
  shows "cmpValue (cmpTimestamp getTime a b) \<le> 0 \<longleftrightarrow> timeOf getTime a \<le> timeOf getTime b"
proof -
  obtain x y where "getTime (timestamp a) = Num x" "getTime (timestamp b) = Num y"
    using assms by (metis number.exhaust)
  then show ?thesis
    by (simp add: cmpTimestamp_def cmpValue_def timeOf_def)
qed

lemma geNum_time_iff:
  assumes "getTime (timestamp a) \<noteq> NaN" "getTime (timestamp b) \<noteq> NaN"
  shows "geNum (getTime (timestamp b)) (getTime (timestamp a)) \<longleftrightarrow> timeOf getTime a \<le> timeOf getTime b"
proof -
  obtain x y where "getTime (timestamp a) = Num x" "getTime (timestamp b) = Num y"
    using assms by (metis number.exhaust)
  then show ?thesis
    by (simp add: geNum_def timeOf_def)
qed

lemma sorted_by_time:
  assumes "\<forall>r \<in> set xs. getTime (timestamp r) \<noteq> NaN"
  shows "sorted (map (timeOf getTime) (sortBy (cmpTimestamp getTime) xs))"
proof -
  let ?A = "set xs"
  have "sorted_wrt (\<lambda>a b. cmpValue (cmpTimestamp getTime a b) \<le> 0) (sortBy (cmpTimestamp getTime) xs)"
  proof (rule sorted_sortBy[where A = ?A])
    fix a b assume "a \<in> ?A" "b \<in> ?A" "\<not> cmpValue (cmpTimestamp getTime a b) \<le> 0"
    then show "cmpValue (cmpTimestamp getTime b a) \<le> 0"
      using assms cmpTimestamp_le_iff[of getTime a b] cmpTimestamp_le_iff[of getTime b a] by force
  next
    fix a b c assume "a \<in> ?A" "b \<in> ?A" "c \<in> ?A"
      "cmpValue (cmpTimestamp getTime a b) \<le> 0" "cmpValue (cmpTimestamp getTime b c) \<le> 0"
    then show "cmpValue (cmpTimestamp getTime a c) \<le> 0"
      using assms cmpTimestamp_le_iff[of getTime a b] cmpTimestamp_le_iff[of getTime b c]
        cmpTimestamp_le_iff[of getTime a c] by force
  qed simp
  then have "sorted_wrt (\<lambda>a b. timeOf getTime a \<le> timeOf getTime b) (sortBy (cmpTimestamp getTime) xs)"
    by (rule sorted_wrt_mono_rel[rotated])
       (use assms cmpTimestamp_le_iff[of getTime] in \<open>auto simp: set_sortBy\<close>)
  then show ?thesis by (simp add: sorted_wrt_map)
qed

lemma timeOf_inj:
  assumes "\<forall>r \<in> set xs. getTime (timestamp r) \<noteq> NaN"
      and "inj_on getTime (timestamp ` set xs)" and "distinct (map timestamp xs)"
  shows "inj_on (timeOf getTime) (set xs)"
proof (rule inj_onI)
  fix a b assume ab: "a \<in> set xs" "b \<in> set xs" "timeOf getTime a = timeOf getTime b"
  obtain x y where xy: "getTime (timestamp a) = Num x" "getTime (timestamp b) = Num y"
    using assms(1) ab by (metis number.exhaust)
  then have "getTime (timestamp a) = getTime (timestamp b)"
    using ab(3) by (simp add: timeOf_def)
  then have "timestamp a = timestamp b"
    using assms(2) ab(1,2) by (auto dest: inj_onD)
  then show "a = b"
    using assms(3) ab(1,2) by (meson distinct_map inj_onD)
qed

lemma strictly_sorted_by_time:
  assumes "\<forall>r \<in> set xs. getTime (timestamp r) \<noteq> NaN"
      and "inj_on getTime (timestamp ` set xs)" and "distinct (map timestamp xs)"
  shows "sorted_wrt (<) (map (timeOf getTime) (sortBy (cmpTimestamp getTime) xs))"
proof -
  let ?S = "sortBy (cmpTimestamp getTime) xs"
  have "distinct xs" using assms(3) by (simp add: distinct_map)
  then have "distinct ?S" using mset_sortBy[of "cmpTimestamp getTime" xs] by (metis mset_eq_imp_distinct_iff)
  moreover have "inj_on (timeOf getTime) (set ?S)"
    using timeOf_inj[OF assms] by (simp add: set_sortBy)
  ultimately have "distinct (map (timeOf getTime) ?S)" by (simp add: distinct_map)
  then show ?thesis using sorted_by_time[OF assms(1)] by (simp add: strict_sorted_iff)
qed

lemma set_sliceLast: "set (sliceLast n xs) \<subseteq> set xs"
  by (simp add: sliceLast_def set_drop_subset)

lemma length_sliceLast: "length (sliceLast n xs) \<le> n"
  by (simp add: sliceLast_def)

lemma strictly_sorted_filter_eq:
  fixes f :: "'a \<Rightarrow> 'b::linorder"
  assumes S: "sorted_wrt (<) (map f S)" and S': "sorted_wrt (<) (map f S')" and sub: "set S' \<subseteq> set S"
  shows "S' = filter (\<lambda>x. x \<in> set S') S"
proof -
  let ?F = "filter (\<lambda>x. x \<in> set S') S"
  have "sorted (map f S) \<and> distinct (map f S)" using S by (simp only: strict_sorted_iff)
  then have "distinct (map f S)" by (rule conjunct2)
  then have inj: "inj_on f (set S)" by (simp add: distinct_map)
  have "sorted_wrt (\<lambda>a b. f a < f b) S" using S by (simp only: sorted_wrt_map)
  then have "sorted_wrt (\<lambda>a b. f a < f b) ?F" by (rule sorted_wrt_filter)
  then have F: "sorted_wrt (<) (map f ?F)" by (simp only: sorted_wrt_map)
  have "set ?F = set S'" using sub by auto
  then have "set (map f S') = set (map f ?F)" by simp
  then have m: "map f S' = map f ?F"
    by (rule strict_sorted_equal[OF F S'])
  have "set S' \<union> set ?F \<subseteq> set S" using sub by auto
  then have "inj_on f (set S' \<union> set ?F)" by (rule inj_on_subset[OF inj])
  then show ?thesis using m by (simp only: inj_on_map_eq_map)
qed

lemma sliceLast_sublist:
  fixes f :: "'a \<Rightarrow> 'b::linorder"
  assumes S: "sorted_wrt (<) (map f S)" and S': "sorted_wrt (<) (map f S')"
      and keep: "set (sliceLast n S) \<subseteq> set S'" and sub: "set S' \<subseteq> set S"
  shows "sliceLast n S' = sliceLast n S"
proof -
  let ?k = "length S - n"
  let ?p = "\<lambda>x. x \<in> set S'"
  have eq: "S' = filter ?p S" by (rule strictly_sorted_filter_eq[OF S S' sub])
  have "filter ?p S = filter ?p (take ?k S @ drop ?k S)" by simp
  also have "\<dots> = filter ?p (take ?k S) @ filter ?p (drop ?k S)" by (simp only: filter_append)
  also have "filter ?p (drop ?k S) = drop ?k S"
    using keep by (auto simp: sliceLast_def filter_id_conv)
  finally have split: "S' = filter ?p (take ?k S) @ drop ?k S" using eq by simp
  show ?thesis
  proof (cases "length S \<le> n")
    case True
    then have "S' = S" using split by simp
    then show ?thesis by simp
  next
    case False
    then have len: "length (drop ?k S) = n" by simp
    have "sliceLast n S' = sliceLast n (filter ?p (take ?k S) @ drop ?k S)"
      using split by simp
    also have "\<dots> = drop ?k S"
      unfolding sliceLast_def using len by simp
    finally show ?thesis by (simp add: sliceLast_def)
  qed
qed

lemma set_dedup_subset: "set (dedup xs) \<subseteq> set xs"
  unfolding set_dedup by (auto simp: ran_def dest: latest_timestamp)

lemma timestamps_set_dedup: "timestamp ` set (dedup xs) = timestamp ` set xs"
proof -
  have "timestamp ` set (dedup xs) = set (map timestamp (dedup xs))" by simp
  also have "\<dots> = timestamp ` set xs"
    unfolding timestamps_dedup using foldl_mapSet_keys[of "[]" xs] by simp
  finally show ?thesis .
qed

lemma distinct_sortBy_timestamps:
  "distinct (map timestamp xs) \<Longrightarrow> distinct (map timestamp (sortBy cmp xs))"
proof -
  assume d: "distinct (map timestamp xs)"
  have "mset (map timestamp (sortBy cmp xs)) = mset (map timestamp xs)"
    by (simp add: mset_sortBy)
  then show ?thesis using d by (metis mset_eq_imp_distinct_iff)
qed

lemma merge_distinct: "distinct (map timestamp (mergeHealthHistory getTime prev incoming))"
proof -
  have "distinct (map timestamp (sortBy (cmpTimestamp getTime) (dedup (prev @ incoming))))"
    by (rule distinct_sortBy_timestamps[OF distinct_dedup])
  then show ?thesis
    unfolding mergeHealthHistory_eq sliceLast_def by (simp add: drop_map[symmetric] distinct_drop)
qed

lemma merge_length: "length (mergeHealthHistory getTime prev incoming) \<le> 40"
  unfolding mergeHealthHistory_eq by (rule length_sliceLast)

lemma merge_subset:
  "set (mergeHealthHistory getTime prev incoming) \<subseteq> ran (latest (prev @ incoming))"
  unfolding mergeHealthHistory_eq using set_sliceLast[of 40] by (fastforce simp: set_sortBy set_dedup)

lemma merge_last_write:
  assumes "r \<in> set (mergeHealthHistory getTime prev incoming)"
  shows "lastWithTimestamp (prev @ incoming) (timestamp r) = Some r"
proof -
  from assms merge_subset obtain k where k: "latest (prev @ incoming) k = Some r"
    by (fastforce simp: ran_def)
  then have "timestamp r = k" by (simp add: latest_timestamp)
  then show ?thesis using k by (simp add: latest_eq_lastWithTimestamp)
qed

lemma lastWithTimestamp_append:
  "lastWithTimestamp (xs @ ys) t =
     (case lastWithTimestamp ys t of None \<Rightarrow> lastWithTimestamp xs t | Some r \<Rightarrow> Some r)"
  unfolding latest_eq_lastWithTimestamp[symmetric] latest_append by (simp add: map_add_def)

lemma lastWithTimestamp_None_iff: "lastWithTimestamp xs t = None \<longleftrightarrow> t \<notin> timestamp ` set xs"
  unfolding latest_eq_lastWithTimestamp[symmetric] using dom_latest[of xs] by blast

lemma merge_incoming_wins:
  assumes "r \<in> set (mergeHealthHistory getTime prev incoming)"
      and "timestamp r \<in> timestamp ` set incoming"
  shows "lastWithTimestamp incoming (timestamp r) = Some r"
proof -
  obtain r' where r': "lastWithTimestamp incoming (timestamp r) = Some r'"
    using assms(2) lastWithTimestamp_None_iff[of incoming "timestamp r"] by fastforce
  then show ?thesis
    using merge_last_write[OF assms(1)] by (simp add: lastWithTimestamp_append)
qed

lemma merge_ordered:
  assumes "timestampsAreTimes getTime (prev @ incoming)"
  shows "orderedByTime getTime (mergeHealthHistory getTime prev incoming)"
proof -
  let ?D = "dedup (prev @ incoming)"
  let ?S = "sortBy (cmpTimestamp getTime) ?D"
  have valid: "\<forall>r \<in> set (prev @ incoming). getTime (timestamp r) \<noteq> NaN"
    using assms by (simp add: timestampsAreTimes_def list_all_iff)
  then have validD: "\<forall>r \<in> set ?D. getTime (timestamp r) \<noteq> NaN"
    using set_dedup_subset[of "prev @ incoming"] by blast
  have "sorted (map (timeOf getTime) ?S)" by (rule sorted_by_time[OF validD])
  then have "sorted_wrt (\<lambda>a b. timeOf getTime a \<le> timeOf getTime b) ?S"
    by (simp add: sorted_wrt_map)
  then have "sorted_wrt (\<lambda>a b. geNum (getTime (timestamp b)) (getTime (timestamp a))) ?S"
    by (rule sorted_wrt_mono_rel[rotated])
       (use validD geNum_time_iff[of getTime] in \<open>auto simp: set_sortBy\<close>)
  then show ?thesis
    unfolding orderedByTime_def mergeHealthHistory_eq sliceLast_def by (rule sorted_wrt_drop)
qed

lemma latest_distinct:
  assumes "distinct (map timestamp xs)" "r \<in> set xs"
  shows "latest xs (timestamp r) = Some r"
proof -
  have "distinct (map fst (rev (map (\<lambda>r. (timestamp r, r)) xs)))"
    using assms(1) by (simp add: rev_map[symmetric] comp_def)
  moreover have "(timestamp r, r) \<in> set (rev (map (\<lambda>r. (timestamp r, r)) xs))"
    using assms(2) by auto
  ultimately show ?thesis unfolding latest_def by (rule map_of_is_SomeI)
qed

lemma distinctTimes_inj:
  assumes "timestampsAreDistinctTimes getTime rows"
  shows "inj_on getTime (timestamp ` set rows)"
proof (rule inj_onI)
  fix s t assume "s \<in> timestamp ` set rows" "t \<in> timestamp ` set rows" and eq: "getTime s = getTime t"
  then obtain a b where ab: "a \<in> set rows" "b \<in> set rows" "s = timestamp a" "t = timestamp b"
    by auto
  have "getTime (timestamp a) \<noteq> getTime (timestamp b) \<or> timestamp a = timestamp b"
    using assms ab(1,2) by (simp add: timestampsAreDistinctTimes_def list_all_iff)
  then show "s = t" using eq ab(3,4) by simp
qed

lemma merge_idempotent:
  assumes "timestampsAreDistinctTimes getTime (prev @ incoming)"
  shows "mergeHealthHistory getTime (mergeHealthHistory getTime prev incoming) incoming
           = mergeHealthHistory getTime prev incoming"
proof -
  let ?cmp = "cmpTimestamp getTime"
  let ?S = "sortBy ?cmp (dedup (prev @ incoming))"
  let ?M = "sliceLast 40 ?S"
  let ?S' = "sortBy ?cmp (dedup (?M @ incoming))"
  have valid: "\<forall>r \<in> set (prev @ incoming). getTime (timestamp r) \<noteq> NaN"
    using assms by (simp add: timestampsAreDistinctTimes_def timestampsAreTimes_def list_all_iff)
  have inj: "inj_on getTime (timestamp ` set (prev @ incoming))"
    by (rule distinctTimes_inj[OF assms])
  have setS: "set ?S = ran (latest (prev @ incoming))" by (simp add: set_sortBy set_dedup)
  have setS': "set ?S' = ran (latest (?M @ incoming))" by (simp add: set_sortBy set_dedup)
  have M_sub: "set ?M \<subseteq> set ?S" by (rule set_sliceLast)
  have S_sub: "set ?S \<subseteq> set (prev @ incoming)"
    using set_dedup_subset[of "prev @ incoming"] by (simp add: set_sortBy)
  have M_in: "set (?M @ incoming) \<subseteq> set (prev @ incoming)"
    using M_sub S_sub by auto
  have dM: "distinct (map timestamp ?M)"
    using merge_distinct[of getTime prev incoming] by (simp add: mergeHealthHistory_eq)
  have sortedS: "sorted_wrt (<) (map (timeOf getTime) ?S)"
  proof (rule strictly_sorted_by_time)
    show "\<forall>r \<in> set (dedup (prev @ incoming)). getTime (timestamp r) \<noteq> NaN"
      using valid set_dedup_subset[of "prev @ incoming"] by blast
    show "inj_on getTime (timestamp ` set (dedup (prev @ incoming)))"
      using inj by (simp only: timestamps_set_dedup)
    show "distinct (map timestamp (dedup (prev @ incoming)))" by (rule distinct_dedup)
  qed
  have sortedS': "sorted_wrt (<) (map (timeOf getTime) ?S')"
  proof (rule strictly_sorted_by_time)
    show "\<forall>r \<in> set (dedup (?M @ incoming)). getTime (timestamp r) \<noteq> NaN"
      using valid M_in set_dedup_subset[of "?M @ incoming"] by blast
    have "timestamp ` set (?M @ incoming) \<subseteq> timestamp ` set (prev @ incoming)"
      using M_in by (rule image_mono)
    then show "inj_on getTime (timestamp ` set (dedup (?M @ incoming)))"
      unfolding timestamps_set_dedup by (rule inj_on_subset[OF inj])
    show "distinct (map timestamp (dedup (?M @ incoming)))" by (rule distinct_dedup)
  qed
  have keep: "set ?M \<subseteq> set ?S'"
  proof
    fix r assume r: "r \<in> set ?M"
    then have "r \<in> ran (latest (prev @ incoming))" using M_sub setS by blast
    then obtain k where k: "latest (prev @ incoming) k = Some r" by (auto simp: ran_def)
    then have kr: "timestamp r = k" by (simp add: latest_timestamp)
    have "latest (?M @ incoming) k = Some r"
    proof (cases "latest incoming k")
      case None
      then show ?thesis
        using latest_distinct[OF dM r] kr by (simp add: latest_append map_add_def)
    next
      case (Some a)
      then show ?thesis using k by (simp add: latest_append map_add_def)
    qed
    then show "r \<in> set ?S'" unfolding setS' by (auto simp: ran_def)
  qed
  have sub: "set ?S' \<subseteq> set ?S"
  proof
    fix r assume "r \<in> set ?S'"
    then obtain k where k: "latest (?M @ incoming) k = Some r"
      unfolding setS' by (auto simp: ran_def)
    show "r \<in> set ?S"
    proof (cases "latest incoming k")
      case None
      then have "latest ?M k = Some r" using k by (simp add: latest_append map_add_def)
      then have "r \<in> set ?M" by (simp add: latest_timestamp)
      then show ?thesis using M_sub by blast
    next
      case (Some a)
      then have "latest (prev @ incoming) k = Some r"
        using k by (simp add: latest_append map_add_def)
      then show ?thesis unfolding setS by (auto simp: ran_def)
    qed
  qed
  have "sliceLast 40 ?S' = sliceLast 40 ?S"
    by (rule sliceLast_sublist[OF sortedS sortedS' keep sub])
  then show ?thesis by (simp add: mergeHealthHistory_eq)
qed

lemma merge_sets:
  fixes getTime prev incoming
  defines "S \<equiv> sortBy (cmpTimestamp getTime) (dedup (prev @ incoming))"
  defines "M \<equiv> sliceLast 40 S"
  defines "S' \<equiv> sortBy (cmpTimestamp getTime) (dedup (M @ incoming))"
  shows "set M \<subseteq> set S'" and "set S' \<subseteq> set S"
proof -
  have setS: "set S = ran (latest (prev @ incoming))" by (simp add: S_def set_sortBy set_dedup)
  have setS': "set S' = ran (latest (M @ incoming))" by (simp add: S'_def set_sortBy set_dedup)
  have M_sub: "set M \<subseteq> set S" unfolding M_def by (rule set_sliceLast)
  have dM: "distinct (map timestamp M)"
    using merge_distinct[of getTime prev incoming] by (simp add: mergeHealthHistory_eq M_def S_def)
  show "set M \<subseteq> set S'"
  proof
    fix r assume r: "r \<in> set M"
    then have "r \<in> ran (latest (prev @ incoming))" using M_sub setS by blast
    then obtain k where k: "latest (prev @ incoming) k = Some r" by (auto simp: ran_def)
    then have kr: "timestamp r = k" by (simp add: latest_timestamp)
    have "latest (M @ incoming) k = Some r"
    proof (cases "latest incoming k")
      case None
      then show ?thesis
        using latest_distinct[OF dM r] kr by (simp add: latest_append map_add_def)
    next
      case (Some a)
      then show ?thesis using k by (simp add: latest_append map_add_def)
    qed
    then show "r \<in> set S'" unfolding setS' by (auto simp: ran_def)
  qed
  show "set S' \<subseteq> set S"
  proof
    fix r assume "r \<in> set S'"
    then obtain k where k: "latest (M @ incoming) k = Some r"
      unfolding setS' by (auto simp: ran_def)
    show "r \<in> set S"
    proof (cases "latest incoming k")
      case None
      then have "latest M k = Some r" using k by (simp add: latest_append map_add_def)
      then have "r \<in> set M" by (simp add: latest_timestamp)
      then show ?thesis using M_sub by blast
    next
      case (Some a)
      then have "latest (prev @ incoming) k = Some r"
        using k by (simp add: latest_append map_add_def)
      then show ?thesis unfolding setS by (auto simp: ran_def)
    qed
  qed
qed

lemma one_key_short:
  assumes "distinct (map f xs)" and "\<forall>a \<in> set xs. \<forall>b \<in> set xs. f a = f b"
  shows "length xs \<le> 1"
proof (cases xs)
  case Nil
  then show ?thesis by simp
next
  case (Cons x ys)
  show ?thesis
  proof (cases ys)
    case Nil
    then show ?thesis using Cons by simp
  next
    case (Cons y zs)
    then show ?thesis using assms \<open>xs = x # ys\<close> by auto
  qed
qed

lemma short_lists_equal:
  assumes "length xs \<le> 1" "length ys \<le> 1" "set xs = set ys"
  shows "xs = ys"
proof -
  have x: "xs = [] \<or> (\<exists>a. xs = [a])" using assms(1) by (cases xs) auto
  have y: "ys = [] \<or> (\<exists>b. ys = [b])" using assms(2) by (cases ys) auto
  show ?thesis using x y assms(3) by auto
qed

lemma sortBy_short: "length xs \<le> 1 \<Longrightarrow> sortBy cmp xs = xs"
  by (cases xs) (auto simp: sortBy_def)

lemma sliceLast_short: "length xs \<le> 40 \<Longrightarrow> sliceLast 40 xs = xs"
  by (simp add: sliceLast_def)

lemma neverTie_two:
  assumes nt: "timestampsNeverTie getTime rows"
      and a: "a \<in> set rows" and b: "b \<in> set rows" and ne: "timestamp a \<noteq> timestamp b"
  shows "getTime (timestamp a) \<noteq> NaN" and "getTime (timestamp a) \<noteq> getTime (timestamp b)"
proof -
  have c: "cmpValue (cmpTimestamp getTime a b) \<noteq> 0"
    using nt a b ne by (auto simp: timestampsNeverTie_def list_all_iff)
  show "getTime (timestamp a) \<noteq> NaN"
    using c by (cases "getTime (timestamp a)") (simp_all add: cmpTimestamp_def cmpValue_def)
  show "getTime (timestamp a) \<noteq> getTime (timestamp b)"
    using c by (cases "getTime (timestamp a)"; cases "getTime (timestamp b)")
               (auto simp: cmpTimestamp_def cmpValue_def)
qed

lemma neverTie_distinctTimes:
  assumes nt: "timestampsNeverTie getTime rows"
      and two: "x \<in> set rows" "y \<in> set rows" "timestamp x \<noteq> timestamp y"
  shows "timestampsAreDistinctTimes getTime rows"
proof -
  have valid: "getTime (timestamp r) \<noteq> NaN" if r: "r \<in> set rows" for r
  proof (cases "timestamp r = timestamp x")
    case True
    then show ?thesis using neverTie_two(1)[OF nt r two(2)] two(3) by simp
  next
    case False
    then show ?thesis using neverTie_two(1)[OF nt r two(1)] by simp
  qed
  have "getTime (timestamp a) \<noteq> getTime (timestamp b) \<or> timestamp a = timestamp b"
    if "a \<in> set rows" "b \<in> set rows" for a b
    using neverTie_two(2)[OF nt that] by blast
  then show ?thesis
    using valid by (simp add: timestampsAreDistinctTimes_def timestampsAreTimes_def list_all_iff)
qed

lemma merge_idempotent_one_timestamp:
  assumes one: "\<forall>a \<in> set (prev @ incoming). \<forall>b \<in> set (prev @ incoming). timestamp a = timestamp b"
  shows "mergeHealthHistory getTime (mergeHealthHistory getTime prev incoming) incoming
           = mergeHealthHistory getTime prev incoming"
proof -
  let ?cmp = "cmpTimestamp getTime"
  let ?D = "dedup (prev @ incoming)"
  let ?S = "sortBy ?cmp ?D"
  let ?M = "sliceLast 40 ?S"
  let ?D' = "dedup (?M @ incoming)"
  let ?S' = "sortBy ?cmp ?D'"
  have lenD: "length ?D \<le> 1"
    using one set_dedup_subset[of "prev @ incoming"]
    by (intro one_key_short[where f = timestamp] distinct_dedup) blast
  then have S: "?S = ?D" by (rule sortBy_short)
  then have M: "?M = ?D" using lenD by (simp add: sliceLast_def)
  have sub: "set (?M @ incoming) \<subseteq> set (prev @ incoming)"
    using set_dedup_subset[of "prev @ incoming"] unfolding M by auto
  have lenD': "length ?D' \<le> 1"
    using one sub set_dedup_subset[of "?M @ incoming"]
    by (intro one_key_short[where f = timestamp] distinct_dedup) blast
  then have S': "?S' = ?D'" by (rule sortBy_short)
  have "set ?M \<subseteq> set ?S'" and "set ?S' \<subseteq> set ?S"
    using merge_sets[of getTime prev incoming] by simp_all
  then have "set ?S' = set ?S" using set_sliceLast[of 40 ?S] M S by auto
  then have "?S' = ?S"
    using lenD lenD' S S' by (intro short_lists_equal) simp_all
  moreover have "sliceLast 40 ?S' = ?S'" using lenD' S' by (simp add: sliceLast_def)
  ultimately show ?thesis using M by (simp add: mergeHealthHistory_eq)
qed

lemma merge_idempotent_never_tie:
  assumes nt: "timestampsNeverTie getTime (prev @ incoming)"
  shows "mergeHealthHistory getTime (mergeHealthHistory getTime prev incoming) incoming
           = mergeHealthHistory getTime prev incoming"
proof (cases "\<forall>a \<in> set (prev @ incoming). \<forall>b \<in> set (prev @ incoming). timestamp a = timestamp b")
  case True
  then show ?thesis by (rule merge_idempotent_one_timestamp)
next
  case False
  then obtain x y where "x \<in> set (prev @ incoming)" "y \<in> set (prev @ incoming)"
      "timestamp x \<noteq> timestamp y" by blast
  then have "timestampsAreDistinctTimes getTime (prev @ incoming)"
    by (rule neverTie_distinctTimes[OF nt])
  then show ?thesis by (rule merge_idempotent)
qed

lemma sortBy_invalid: "sortBy (cmpTimestamp getTimeInvalid) xs = xs"
proof -
  have "insertBy (cmpTimestamp getTimeInvalid) x ys = x # ys" for x ys
    by (cases ys) (simp_all add: cmpTimestamp_def getTimeInvalid_def cmpValue_def)
  then show ?thesis by (induction xs) (simp_all add: sortBy_def)
qed

lemma tie_first_merge:
  "mergeHealthHistory getTimeIsoEx tieHistory tieIncoming =
     isoRow ''2024-05-01T10:00:00.000Z'' Green # map (\<lambda>i. isoRow (isoStamp i) Green) [1..<40]"
  by code_simp

lemma tie_second_merge:
  "mergeHealthHistory getTimeIsoEx
     (isoRow ''2024-05-01T10:00:00.000Z'' Green # map (\<lambda>i. isoRow (isoStamp i) Green) [1..<40])
     tieIncoming =
     isoRow (isoStamp 0) Red # map (\<lambda>i. isoRow (isoStamp i) Green) [1..<40]"
  by code_simp

lemma tie_times:
  "getTimeIsoEx ''2024-05-01T10:00:00Z'' = Num 1714557600000"
  "getTimeIsoEx ''2024-05-01T10:00:00.000Z'' = Num 1714557600000"
  by code_simp+

lemma exHistory_never_tie: "timestampsNeverTie getTimeIsoEx (exPrev @ exIncoming)"
  by code_simp

lemma exHistory_merge: "mergeHealthHistory getTimeIsoEx exPrev exIncoming =
   [isoRow ''2024-05-01T10:00:00Z'' Green, isoRow ''2024-05-01T10:00:05Z'' Red,
    isoRow ''2024-05-01T10:00:10Z'' Green]"
  by code_simp

lemma clock_merge: "mergeHealthHistory getTimeInvalid [clockRow 5 Green] [clockRow 1 Green]
     = [clockRow 5 Green, clockRow 1 Green]"
  unfolding mergeHealthHistory_def Let_def sortBy_invalid by code_simp

lemma clock_secs: "clockSeconds ''10:00:05'' = Some 36005" "clockSeconds ''10:00:01'' = Some 36001"
  by (simp_all add: clockSeconds_def isDigit_def digitsValue_def)

lemma clock_ts: "map timestamp [clockRow 5 Green, clockRow 1 Green] = [''10:00:05'', ''10:00:01'']"
  by code_simp

lemma isoStamp_zero: "isoStamp 0 = ''2024-05-01T10:00:00Z''"
  by code_simp

text \<open>
  C4, as amended. Merging the same incoming rows a second time changes nothing, provided
  no two rows of the inputs with different timestamps compare equal in the sort by time
  (different timestamps are different times); and, for all inputs, a row of the result
  whose timestamp occurs in the incoming rows is the last incoming row with that
  timestamp.
\<close>

theorem mergeHealthHistory_idempotent:
  "(timestampsNeverTie getTime (prev @ incoming) \<longrightarrow>
      mergeHealthHistory getTime (mergeHealthHistory getTime prev incoming) incoming
        = mergeHealthHistory getTime prev incoming)
   \<and> (\<forall>r \<in> set (mergeHealthHistory getTime prev incoming).
         timestamp r \<in> timestamp ` set incoming \<longrightarrow>
         lastWithTimestamp incoming (timestamp r) = Some r)"
  using merge_idempotent_never_tie[of getTime prev incoming]
    merge_incoming_wins[of _ getTime prev incoming]
  by blast

theorem mergeHealthHistory_idempotent_witness:
  "timestampsNeverTie getTimeIsoEx (exPrev @ exIncoming)
   \<and> mergeHealthHistory getTimeIsoEx (mergeHealthHistory getTimeIsoEx exPrev exIncoming) exIncoming
       = mergeHealthHistory getTimeIsoEx exPrev exIncoming
   \<and> mergeHealthHistory getTimeIsoEx exPrev exIncoming =
       [isoRow ''2024-05-01T10:00:00Z'' Green, isoRow ''2024-05-01T10:00:05Z'' Red,
        isoRow ''2024-05-01T10:00:10Z'' Green]
   \<and> lastWithTimestamp exIncoming ''2024-05-01T10:00:05Z'' = Some (isoRow ''2024-05-01T10:00:05Z'' Red)"
proof -
  have idem: "mergeHealthHistory getTimeIsoEx (mergeHealthHistory getTimeIsoEx exPrev exIncoming) exIncoming
       = mergeHealthHistory getTimeIsoEx exPrev exIncoming"
    using mergeHealthHistory_idempotent[of getTimeIsoEx exPrev exIncoming] exHistory_never_tie by blast
  have mem: "isoRow ''2024-05-01T10:00:05Z'' Red \<in> set (mergeHealthHistory getTimeIsoEx exPrev exIncoming)"
    by (simp add: exHistory_merge)
  have ts: "timestamp (isoRow ''2024-05-01T10:00:05Z'' Red) = ''2024-05-01T10:00:05Z''"
    by (simp add: isoRow_def)
  have inc: "timestamp (isoRow ''2024-05-01T10:00:05Z'' Red) \<in> timestamp ` set exIncoming"
    by (simp add: exIncoming_def)
  have "lastWithTimestamp exIncoming (timestamp (isoRow ''2024-05-01T10:00:05Z'' Red))
          = Some (isoRow ''2024-05-01T10:00:05Z'' Red)"
    using mergeHealthHistory_idempotent[of getTimeIsoEx exPrev exIncoming] mem inc by blast
  then have "lastWithTimestamp exIncoming ''2024-05-01T10:00:05Z'' = Some (isoRow ''2024-05-01T10:00:05Z'' Red)"
    by (simp only: ts)
  then show ?thesis
    using exHistory_never_tie idem exHistory_merge by (intro conjI)
qed

text \<open>
  The timestamps \<open>2024-05-01T10:00:00Z\<close> and \<open>2024-05-01T10:00:00.000Z\<close> are dates, and
  the same time. The history has forty rows and begins with these two; the incoming rows
  are a second report for the first and one new row. In the first merge the report
  replaces the first row where it stands, the sort keeps the two rows of equal time in
  that order, and of the forty-one rows the first, the report, is cut off. In the second
  merge the report is inserted anew, after the row of the same time, and that row is the
  one cut off: the two results differ in their first row.
\<close>

theorem mergeHealthHistory_idempotent_counterexample:
  "getTimeIsoEx ''2024-05-01T10:00:00Z'' = Num 1714557600000
   \<and> getTimeIsoEx ''2024-05-01T10:00:00.000Z'' = Num 1714557600000
   \<and> length tieHistory = 40
   \<and> mergeHealthHistory getTimeIsoEx tieHistory tieIncoming =
       isoRow ''2024-05-01T10:00:00.000Z'' Green # map (\<lambda>i. isoRow (isoStamp i) Green) [1..<40]
   \<and> mergeHealthHistory getTimeIsoEx (mergeHealthHistory getTimeIsoEx tieHistory tieIncoming) tieIncoming =
       isoRow ''2024-05-01T10:00:00Z'' Red # map (\<lambda>i. isoRow (isoStamp i) Green) [1..<40]
   \<and> mergeHealthHistory getTimeIsoEx (mergeHealthHistory getTimeIsoEx tieHistory tieIncoming) tieIncoming
       \<noteq> mergeHealthHistory getTimeIsoEx tieHistory tieIncoming"
proof -
  have ne: "isoRow ''2024-05-01T10:00:00Z'' Red \<noteq> isoRow ''2024-05-01T10:00:00.000Z'' Green"
    by (simp add: isoRow_def)
  have len: "length tieHistory = 40"
    by (simp add: tieHistory_def)
  show ?thesis
    unfolding tie_first_merge tie_second_merge isoStamp_zero
    using tie_times ne len by simp
qed

text \<open>
  C5. The rows that \<open>/_cat/health\<close> reports carry clock times \<open>HH:MM:SS\<close>, which the
  engine does not read as dates: the comparator of the sort is then \<open>NaN\<close> for every two
  rows and the sort leaves the rows as they were inserted. A history holding 10:00:05
  merged with a row of 10:00:01 has the later time first. The result has no two rows
  with the same timestamp and at most 40 rows, for all inputs.
\<close>

theorem mergeHealthHistory_clock_order:
  "mergeHealthHistory getTimeInvalid [clockRow 5 Green] [clockRow 1 Green]
     = [clockRow 5 Green, clockRow 1 Green]
   \<and> map (\<lambda>r. clockSeconds (timestamp r))
        (mergeHealthHistory getTimeInvalid [clockRow 5 Green] [clockRow 1 Green])
     = [Some 36005, Some 36001]
   \<and> distinct (map timestamp (mergeHealthHistory getTime prev incoming))
   \<and> length (mergeHealthHistory getTime prev incoming) \<le> 40"
proof -
  have "map (\<lambda>r. clockSeconds (timestamp r)) [clockRow 5 Green, clockRow 1 Green]
          = map clockSeconds (map timestamp [clockRow 5 Green, clockRow 1 Green])"
    by simp
  also have "\<dots> = [Some 36005, Some 36001]"
    unfolding clock_ts by (simp add: clock_secs)
  finally show ?thesis
    unfolding clock_merge
    using merge_distinct[of getTime prev incoming] merge_length[of getTime prev incoming]
    by simp
qed

section \<open>The connection set and the fetch cycle\<close>

lemma find_hd_filter:
  "find P (x # xs) = Some x" if "P x"
  using that by simp

lemma find_None_filter: "find P xs = None \<Longrightarrow> find P (filter Q xs) = None"
  by (induction xs) (auto split: if_splits)

lemma find_Some_mem: "find P xs = Some x \<Longrightarrow> x \<in> set xs \<and> P x"
  by (induction xs) (auto split: if_splits)

lemma activeCluster_mem: "activeCluster s = Some c \<Longrightarrow> c \<in> set (clusters s)"
  by (auto simp: activeCluster_def split: option.splits list.splits dest: find_Some_mem)

lemma deleteCluster_last:
  assumes "length (clusters s) = 1"
  shows "clusters (deleteCluster l s) = clusters s"
    and "activeClusterLabel (deleteCluster l s) = activeClusterLabel s"
    and "activeCluster (deleteCluster l s) = activeCluster s"
    and "toasts (deleteCluster l s) =
           toasts s @ [ToastError ''Cannot delete'' (Some ''At least one cluster must remain.'')]"
  using assms by (simp_all add: deleteCluster_def activeCluster_def split: option.splits)

lemma deleteCluster_active:
  assumes act: "activeCluster s = Some c" and lab: "label c = l"
      and others: "filter (\<lambda>c. label c \<noteq> l) (clusters s) \<noteq> []"
  shows "\<exists>c'. activeCluster (deleteCluster l s) = Some c'
            \<and> c' \<in> set (clusters (deleteCluster l s)) \<and> c' \<in> set (clusters s) \<and> label c' \<noteq> l"
proof -
  let ?rem = "filter (\<lambda>c. label c \<noteq> l) (clusters s)"
  obtain r rs where rem: "?rem = r # rs" using others by (cases ?rem) auto
  have "r \<in> set ?rem" using rem by simp
  then have r: "r \<in> set (clusters s)" "label r \<noteq> l" by simp_all
  have c_in: "c \<in> set (clusters s)" using act by (rule activeCluster_mem)
  have len: "length (clusters s) \<noteq> 1"
  proof
    assume "length (clusters s) = 1"
    then obtain x where "clusters s = [x]" by (cases "clusters s") auto
    then show False using c_in r lab by auto
  qed
  have cl: "clusters (deleteCluster l s) = r # rs"
    using len rem by (simp add: deleteCluster_def Let_def)
  have "activeCluster (deleteCluster l s) = Some r"
  proof (cases "activeClusterLabel s = l")
    case True
    then have "activeClusterLabel (deleteCluster l s) = label r"
      using len rem by (simp add: deleteCluster_def Let_def)
    then show ?thesis by (simp add: activeCluster_def cl)
  next
    case False
    then have lbl: "activeClusterLabel (deleteCluster l s) = activeClusterLabel s"
      using len by (simp add: deleteCluster_def Let_def)
    have none: "find (\<lambda>c. label c = activeClusterLabel s) (clusters s) = None"
    proof (cases "find (\<lambda>c. label c = activeClusterLabel s) (clusters s)")
      case None
      then show ?thesis .
    next
      case (Some x)
      then have "activeCluster s = Some x" by (simp add: activeCluster_def)
      then have "x = c" using act by simp
      then show ?thesis using find_Some_mem[OF Some] lab False by simp
    qed
    have "find (\<lambda>c. label c = activeClusterLabel s) (r # rs) = None"
      using find_None_filter[OF none, of "\<lambda>c. label c \<noteq> l"] rem by simp
    then show ?thesis unfolding activeCluster_def lbl cl by simp
  qed
  then show ?thesis using cl r by simp
qed

lemma map_label_replace:
  "label n = k \<Longrightarrow> map label (map (\<lambda>c. if label c = k then n else c) xs) = map label xs"
  by (induction xs) auto

lemma addCluster_clusters:
  "clusters (addCluster input s) =
         (if list_ex (\<lambda>c. label c = label (newClusterOf input)) (clusters s)
          then map (\<lambda>c. if label c = label (newClusterOf input) then newClusterOf input else c) (clusters s)
          else clusters s @ [newClusterOf input])"
  by (simp add: addCluster_def Let_def newClusterOf_def)

lemma addCluster_unique: "uniqueLabels s \<Longrightarrow> uniqueLabels (addCluster input s)"
proof -
  assume u: "uniqueLabels s"
  let ?n = "newClusterOf input"
  show ?thesis
  proof (cases "list_ex (\<lambda>c. label c = label ?n) (clusters s)")
    case True
    then have "map label (clusters (addCluster input s)) = map label (clusters s)"
      unfolding addCluster_clusters using map_label_replace[OF refl, of ?n "clusters s"]
      by (simp del: map_map)
    then show ?thesis using u by (simp add: uniqueLabels_def)
  next
    case False
    then have "label ?n \<notin> label ` set (clusters s)" by (auto simp: list_ex_iff)
    then show ?thesis using u False by (simp add: uniqueLabels_def addCluster_clusters)
  qed
qed

lemma deleteCluster_unique: "uniqueLabels s \<Longrightarrow> uniqueLabels (deleteCluster l s)"
  by (simp add: uniqueLabels_def deleteCluster_def Let_def distinct_map_filter)

lemma rejected_not_timeout:
  assumes "\<not> isTimeout err"
  shows "fetchAll_rejected err ac hr s =
     finallyBlock
       (toastUnlessMock (errorMessage err)
          (s \<lparr> error :=
                  Some (case ac of
                          None \<Rightarrow> errorMessage err
                        | Some c \<Rightarrow>
                            if includesStr (toLowerCase (errorMessage err)) ''network error''
                            then networkErrorMessage c else errorMessage err),
                connectionFailed := True \<rparr>))"
  using assms by (simp add: fetchAll_rejected_def Let_def)

lemma connectionFailed_finally [simp]: "connectionFailed (finallyBlock s) = connectionFailed s"
  and error_finally [simp]: "error (finallyBlock s) = error s"
  and loading_finally [simp]: "loading (finallyBlock s) = False"
  and refreshing_finally [simp]: "refreshing (finallyBlock s) = False"
  and snapshot_finally [simp]: "snapshot (finallyBlock s) = snapshot s"
  and history_finally [simp]: "healthHistory (finallyBlock s) = healthHistory s"
  and label_finally [simp]: "activeClusterLabel (finallyBlock s) = activeClusterLabel s"
  and clusters_finally [simp]: "clusters (finallyBlock s) = clusters s"
  by (simp_all add: finallyBlock_def)

lemma connectionFailed_toast [simp]: "connectionFailed (toastUnlessMock m s) = connectionFailed s"
  and error_toast [simp]: "error (toastUnlessMock m s) = error s"
  by (simp_all add: toastUnlessMock_def)

lemma not_timeout_sets_flag:
  assumes "\<not> isTimeout err"
  shows "connectionFailed (fetchAll_rejected err ac hr s)"
    and "\<not> pollingActive (fetchAll_rejected err ac hr s)"
    and "error (fetchAll_rejected err ac hr s) =
           Some (case ac of
                   None \<Rightarrow> errorMessage err
                 | Some c \<Rightarrow>
                     if includesStr (toLowerCase (errorMessage err)) ''network error''
                     then networkErrorMessage c else errorMessage err)"
    and "\<not> loading (fetchAll_rejected err ac hr s)"
    and "\<not> refreshing (fetchAll_rejected err ac hr s)"
  by (simp_all add: rejected_not_timeout[OF assms] pollingActive_def)

lemma timeout_probe_ok:
  assumes "isTimeout err" "success hr"
  shows "\<not> connectionFailed (fetchAll_rejected err (Some c) hr s)"
    and "error (fetchAll_rejected err (Some c) hr s) = Some (errorMessage err)"
  using assms by (simp_all add: fetchAll_rejected_def Let_def)

lemma timeout_probe_failed:
  assumes "isTimeout err" "\<not> success hr"
  shows "connectionFailed (fetchAll_rejected err (Some c) hr s)"
  using assms by (simp add: fetchAll_rejected_def Let_def)

lemma settle_fulfilled:
  assumes "i < length outstanding"
  shows "fst (step getTime (Settle i (Fulfilled al re he ns se ch now)) (s, outstanding))
           = fetchAll_fulfilled getTime al re he ns se ch now s"
  using assms by simp

lemma fulfilled_fields:
  "snapshot (fetchAll_fulfilled getTime al re he ns se ch now s) =
      Some \<lparr> allocation = al, recovery = re, health = he, nodes = ns,
             settings = se, catHealth = ch, fetchedAt = now \<rparr>"
  "healthHistory (fetchAll_fulfilled getTime al re he ns se ch now s) =
      mergeHealthHistory getTime (healthHistory s) ch"
  "activeClusterLabel (fetchAll_fulfilled getTime al re he ns se ch now s) = activeClusterLabel s"
  "clusters (fetchAll_fulfilled getTime al re he ns se ch now s) = clusters s"
  by (simp_all add: fetchAll_fulfilled_def)

lemma ex500: "\<not> isTimeout exHttp500"
  by (simp add: isTimeout_def exHttp500_def errorMessage_def toLowerCase_def lowerChar_def Let_def)

lemma exActive: "activeCluster exState = Some exProd"
  by (simp add: activeCluster_def exState_def exProd_def)

lemma timeout_probe_failed_fields:
  assumes "isTimeout err" "\<not> success hr"
  shows "\<not> pollingActive (fetchAll_rejected err (Some c) hr s)"
    and "error (fetchAll_rejected err (Some c) hr s) =
           Some (case HealthCheckResult.error hr of
                   None \<Rightarrow> networkErrorMessage c
                 | Some e \<Rightarrow> orElse e (networkErrorMessage c))"
  using assms by (simp_all add: fetchAll_rejected_def Let_def pollingActive_def)

lemma rejected_flag_iff:
  "connectionFailed (fetchAll_rejected err ac hr s)
     \<longleftrightarrow> \<not> (isTimeout err \<and> ac \<noteq> None \<and> success hr)"
proof (cases "isTimeout err")
  case False
  then show ?thesis using not_timeout_sets_flag(1)[OF False, of ac hr s] by simp
next
  case True
  show ?thesis
  proof (cases ac)
    case None
    then show ?thesis using True by (simp add: fetchAll_rejected_def Let_def)
  next
    case (Some c)
    then show ?thesis
      using True timeout_probe_ok(1)[OF True, of hr c s] timeout_probe_failed[OF True, of hr c s]
      by (cases "success hr") simp_all
  qed
qed

lemma isTimeout_iff:
  "isTimeout err \<longleftrightarrow>
     (\<exists>n m. err = ErrorObject n m
        \<and> (n = ''AbortError'' \<or> n = ''TimeoutError''
             \<or> includesStr (toLowerCase (errorMessage err)) ''timeout''
             \<or> includesStr (toLowerCase (errorMessage err)) ''aborted''))"
  by (cases err) (simp_all add: isTimeout_def)

lemma ex504: "isTimeout exHttp504"
  by code_simp

lemma exTimeout_is: "isTimeout exTimeout"
  by code_simp

text \<open>
  C1, as amended. The error handler of \<open>fetchAll\<close> takes a failure for a timeout or
  abort when the thrown error is named \<open>AbortError\<close> or \<open>TimeoutError\<close>, or its message
  contains \<open>timeout\<close> or \<open>aborted\<close> in any case of the letters (so a response
  \<open>504 Gateway Timeout\<close> is one). For every failure that it does not take for one (another
  non-2xx status, malformed JSON, a network error) it surfaces an error message and sets
  \<open>connectionFailed\<close>, so that polling stops. For one that it does, with a connection
  selected, it probes the cluster: if the probe fails it sets \<open>connectionFailed\<close> and
  surfaces the error of the probe, so that polling stops; if the probe succeeds it
  surfaces the message and clears \<open>connectionFailed\<close>. This last is the only failure
  handled as transient: after any failure, \<open>connectionFailed\<close> is clear exactly then.
\<close>

theorem fetchAll_non_timeout_failure:
  "(connectionFailed (fetchAll_rejected err closureCluster healthResult s)
      \<longleftrightarrow> \<not> (isTimeout err \<and> closureCluster \<noteq> None \<and> success healthResult))
   \<and> (isTimeout err \<longleftrightarrow>
        (\<exists>n m. err = ErrorObject n m
           \<and> (n = ''AbortError'' \<or> n = ''TimeoutError''
                \<or> includesStr (toLowerCase (errorMessage err)) ''timeout''
                \<or> includesStr (toLowerCase (errorMessage err)) ''aborted'')))
   \<and> (\<not> isTimeout err \<longrightarrow>
      connectionFailed (fetchAll_rejected err closureCluster healthResult s)
      \<and> \<not> pollingActive (fetchAll_rejected err closureCluster healthResult s)
      \<and> error (fetchAll_rejected err closureCluster healthResult s) =
           Some (case closureCluster of
                   None \<Rightarrow> errorMessage err
                 | Some c \<Rightarrow>
                     if includesStr (toLowerCase (errorMessage err)) ''network error''
                     then networkErrorMessage c else errorMessage err))
   \<and> (isTimeout err \<and> \<not> success healthResult \<longrightarrow>
      connectionFailed (fetchAll_rejected err (Some c0) healthResult s)
      \<and> \<not> pollingActive (fetchAll_rejected err (Some c0) healthResult s)
      \<and> error (fetchAll_rejected err (Some c0) healthResult s) =
           Some (case HealthCheckResult.error healthResult of
                   None \<Rightarrow> networkErrorMessage c0
                 | Some e \<Rightarrow> orElse e (networkErrorMessage c0)))
   \<and> (isTimeout err \<and> success healthResult \<longrightarrow>
      \<not> connectionFailed (fetchAll_rejected err (Some c0) healthResult s)
      \<and> error (fetchAll_rejected err (Some c0) healthResult s) = Some (errorMessage err))"
proof (intro conjI)
  show "connectionFailed (fetchAll_rejected err closureCluster healthResult s)
      \<longleftrightarrow> \<not> (isTimeout err \<and> closureCluster \<noteq> None \<and> success healthResult)"
    by (rule rejected_flag_iff)
  show "isTimeout err \<longleftrightarrow>
        (\<exists>n m. err = ErrorObject n m
           \<and> (n = ''AbortError'' \<or> n = ''TimeoutError''
                \<or> includesStr (toLowerCase (errorMessage err)) ''timeout''
                \<or> includesStr (toLowerCase (errorMessage err)) ''aborted''))"
    by (rule isTimeout_iff)
  show "\<not> isTimeout err \<longrightarrow>
      connectionFailed (fetchAll_rejected err closureCluster healthResult s)
      \<and> \<not> pollingActive (fetchAll_rejected err closureCluster healthResult s)
      \<and> error (fetchAll_rejected err closureCluster healthResult s) =
           Some (case closureCluster of
                   None \<Rightarrow> errorMessage err
                 | Some c \<Rightarrow>
                     if includesStr (toLowerCase (errorMessage err)) ''network error''
                     then networkErrorMessage c else errorMessage err)"
    using not_timeout_sets_flag(1,2,3)[of err closureCluster healthResult s] by blast
  show "isTimeout err \<and> \<not> success healthResult \<longrightarrow>
      connectionFailed (fetchAll_rejected err (Some c0) healthResult s)
      \<and> \<not> pollingActive (fetchAll_rejected err (Some c0) healthResult s)
      \<and> error (fetchAll_rejected err (Some c0) healthResult s) =
           Some (case HealthCheckResult.error healthResult of
                   None \<Rightarrow> networkErrorMessage c0
                 | Some e \<Rightarrow> orElse e (networkErrorMessage c0))"
    using timeout_probe_failed[of err healthResult c0 s]
      timeout_probe_failed_fields[of err healthResult c0 s] by blast
  show "isTimeout err \<and> success healthResult \<longrightarrow>
      \<not> connectionFailed (fetchAll_rejected err (Some c0) healthResult s)
      \<and> error (fetchAll_rejected err (Some c0) healthResult s) = Some (errorMessage err)"
    using timeout_probe_ok[of err healthResult c0 s] by blast
qed

theorem fetchAll_non_timeout_failure_witness:
  "\<not> isTimeout exHttp500
   \<and> connectionFailed (fetchAll_rejected exHttp500 (Some exProd) exProbeDown exState)
   \<and> error (fetchAll_rejected exHttp500 (Some exProd) exProbeDown exState)
       = Some ''Elasticsearch 500 Internal Server Error''
   \<and> isTimeout exTimeout \<and> \<not> success exProbeDown
   \<and> connectionFailed (fetchAll_rejected exTimeout (Some exProd) exProbeDown exState)
   \<and> error (fetchAll_rejected exTimeout (Some exProd) exProbeDown exState)
       = Some ''Elasticsearch 503 Service Unavailable''
   \<and> success exProbeUp
   \<and> \<not> connectionFailed (fetchAll_rejected exTimeout (Some exProd) exProbeUp exState)
   \<and> error (fetchAll_rejected exTimeout (Some exProd) exProbeUp exState) = Some ''Request timeout''
   \<and> isTimeout exHttp504
   \<and> \<not> connectionFailed (fetchAll_rejected exHttp504 (Some exProd) exProbeUp exState)"
proof -
  have msg: "errorMessage exHttp500 = ''Elasticsearch 500 Internal Server Error''"
    by (simp add: exHttp500_def errorMessage_def toLowerCase_def lowerChar_def Let_def)
  have net: "\<not> includesStr (toLowerCase ''Elasticsearch 500 Internal Server Error'') ''network error''"
    by (simp add: toLowerCase_def lowerChar_def Let_def)
  have a: "connectionFailed (fetchAll_rejected exHttp500 (Some exProd) exProbeDown exState)
       \<and> error (fetchAll_rejected exHttp500 (Some exProd) exProbeDown exState)
           = Some ''Elasticsearch 500 Internal Server Error''"
    using fetchAll_non_timeout_failure[of exHttp500 "Some exProd" exProbeDown exState] ex500 net
    by (simp add: msg)
  have down: "\<not> success exProbeDown"
    "HealthCheckResult.error exProbeDown = Some ''Elasticsearch 503 Service Unavailable''"
    by (simp_all add: exProbeDown_def)
  have b: "connectionFailed (fetchAll_rejected exTimeout (Some exProd) exProbeDown exState)
       \<and> error (fetchAll_rejected exTimeout (Some exProd) exProbeDown exState)
           = Some ''Elasticsearch 503 Service Unavailable''"
    using fetchAll_non_timeout_failure[of exTimeout "Some exProd" exProbeDown exState exProd]
      exTimeout_is down
    by (simp add: orElse_def)
  have up: "success exProbeUp"
    by (simp add: exProbeUp_def)
  have msg2: "errorMessage exTimeout = ''Request timeout''"
    by code_simp
  have c: "\<not> connectionFailed (fetchAll_rejected exTimeout (Some exProd) exProbeUp exState)
       \<and> error (fetchAll_rejected exTimeout (Some exProd) exProbeUp exState) = Some ''Request timeout''"
    using fetchAll_non_timeout_failure[of exTimeout "Some exProd" exProbeUp exState exProd]
      exTimeout_is up
    by (simp add: msg2)
  have d: "\<not> connectionFailed (fetchAll_rejected exHttp504 (Some exProd) exProbeUp exState)"
    using fetchAll_non_timeout_failure[of exHttp504 "Some exProd" exProbeUp exState exProd]
      ex504 up
    by simp
  show ?thesis
    using ex500 a exTimeout_is down(1) b up c ex504 d by (intro conjI) simp_all
qed

text \<open>
  A response 500 is not a timeout, and the handler sets \<open>connectionFailed\<close> for it:
  polling, active before, is not active after.
\<close>

theorem fetchAll_transient_counterexample:
  "\<not> isTimeout exHttp500
   \<and> \<not> connectionFailed exState \<and> pollingActive exState
   \<and> connectionFailed (fetchAll_rejected exHttp500 (Some exProd) exProbeDown exState)
   \<and> \<not> pollingActive (fetchAll_rejected exHttp500 (Some exProd) exProbeDown exState)"
proof -
  have "\<not> connectionFailed exState" "pollingActive exState"
    by (simp_all add: pollingActive_def exActive) (simp_all add: exState_def)
  then show ?thesis
    using ex500 not_timeout_sets_flag(1,2)[OF ex500, of "Some exProd" exProbeDown exState]
    by simp
qed

lemma exRun1: "run getTimeInvalid (take 3 exSwitchRun) (exState, []) =
    (exState \<lparr> refreshing := True, activeClusterLabel := ''staging'', healthCheckDone := False \<rparr>,
     [exProd, exStaging])"
  by (simp add: run_def exSwitchRun_def exActive fetchAll_start_def setActiveCluster_def)
     (simp add: exState_def activeCluster_def exProd_def exStaging_def fetchAll_start_def)

lemma exRun2: "run getTimeInvalid exSwitchRun (exState, []) =
    (exState \<lparr> refreshing := False, activeClusterLabel := ''staging'', healthCheckDone := False,
               lastUpdated := Some ''2024-05-01T10:00:08.000Z'',
               snapshot := Some \<lparr> allocation = [], recovery = [], health = (), nodes = exProdNodes,
                                    settings = (), catHealth = [],
                                    fetchedAt = ''2024-05-01T10:00:08.000Z'' \<rparr> \<rparr>,
     [])"
proof -
  have split: "exSwitchRun = take 3 exSwitchRun @ drop 3 exSwitchRun" by simp
  have m: "mergeHealthHistory getTimeInvalid [] [] = []"
    by (simp add: mergeHealthHistory_def sortBy_def mapValues_def sliceLast_def)
  have "run getTimeInvalid exSwitchRun (exState, [])
      = run getTimeInvalid (drop 3 exSwitchRun) (run getTimeInvalid (take 3 exSwitchRun) (exState, []))"
    by (subst split) (simp only: run_def foldl_append)
  also have "\<dots> = (exState \<lparr> refreshing := False, activeClusterLabel := ''staging'', healthCheckDone := False,
               lastUpdated := Some ''2024-05-01T10:00:08.000Z'',
               snapshot := Some \<lparr> allocation = [], recovery = [], health = (), nodes = exProdNodes,
                                    settings = (), catHealth = [],
                                    fetchedAt = ''2024-05-01T10:00:08.000Z'' \<rparr> \<rparr>, [])"
    unfolding exRun1
    by (simp add: run_def exSwitchRun_def fetchAll_fulfilled_def finallyBlock_def m)
       (simp add: exState_def m)
  finally show ?thesis .
qed

text \<open>
  In the execution \<open>exSwitchRun\<close> the cycle outstanding for \<open>prod\<close> settles after the
  switch to \<open>staging\<close> and after the cycle of \<open>staging\<close>: the snapshot at the end
  holds the nodes of \<open>prod\<close> while \<open>staging\<close> is the active connection.
\<close>

theorem stale_result_published_counterexample:
  "snd (run getTimeInvalid (take 3 exSwitchRun) (exState, [])) = [exProd, exStaging]
   \<and> activeCluster (fst (run getTimeInvalid exSwitchRun (exState, []))) = Some exStaging
   \<and> snapshot (fst (run getTimeInvalid exSwitchRun (exState, []))) =
        Some \<lparr> allocation = [], recovery = [], health = (), nodes = exProdNodes,
               settings = (), catHealth = [], fetchedAt = ''2024-05-01T10:00:08.000Z'' \<rparr>"
  unfolding exRun1 exRun2
  by (simp add: activeCluster_def) (simp add: exState_def exProd_def exStaging_def)

text \<open>
  C2, as amended. When the active connection is switched while a fetch cycle is
  outstanding, the result of that cycle is not discarded: on arrival it is published as
  the snapshot, and its health rows are merged into the history, whatever connection is
  active then; the originating connection is not compared with the active one.
\<close>

theorem settled_result_published:
  "i < length outstanding \<longrightarrow>
     snapshot (fst (step getTime (Settle i (Fulfilled al re he ns se ch now))
                      (setActiveCluster newLabel s, outstanding)))
       = Some \<lparr> allocation = al, recovery = re, health = he, nodes = ns,
                settings = se, catHealth = ch, fetchedAt = now \<rparr>
     \<and> healthHistory (fst (step getTime (Settle i (Fulfilled al re he ns se ch now))
                      (setActiveCluster newLabel s, outstanding)))
       = mergeHealthHistory getTime (healthHistory s) ch
     \<and> activeClusterLabel (fst (step getTime (Settle i (Fulfilled al re he ns se ch now))
                      (setActiveCluster newLabel s, outstanding)))
       = newLabel"
  by (simp add: fulfilled_fields setActiveCluster_def)

theorem settled_result_published_witness:
  "(0::nat) < length [exProd]
   \<and> label exProd \<noteq> ''staging''
   \<and> snapshot (fst (step getTimeInvalid
                 (Settle 0 (Fulfilled [] [] () exProdNodes () [] ''2024-05-01T10:00:08.000Z''))
                 (setActiveCluster ''staging'' exState, [exProd])))
       = Some \<lparr> allocation = [], recovery = [], health = (), nodes = exProdNodes,
                settings = (), catHealth = [], fetchedAt = ''2024-05-01T10:00:08.000Z'' \<rparr>
   \<and> activeClusterLabel (fst (step getTimeInvalid
                 (Settle 0 (Fulfilled [] [] () exProdNodes () [] ''2024-05-01T10:00:08.000Z''))
                 (setActiveCluster ''staging'' exState, [exProd])))
       = ''staging''"
proof -
  have l: "(0::nat) < length [exProd]" by simp
  have "label exProd \<noteq> ''staging''" by (simp add: exProd_def)
  then show ?thesis
    using l settled_result_published[of 0 "[exProd]" getTimeInvalid "[]" "[]" "()" exProdNodes "()" "[]"
        "''2024-05-01T10:00:08.000Z''" "''staging''" exState]
    by blast
qed

text \<open>
  C9. \<open>addCluster\<close> and \<open>deleteCluster\<close> keep the labels of the connections pairwise
  different (the two lemmas above); \<open>updateCluster\<close> does not: renaming \<open>staging\<close> to
  \<open>prod\<close> while \<open>prod\<close> exists leaves two connections with the label \<open>prod\<close>.
\<close>

theorem updateCluster_duplicate_label:
  "uniqueLabels exState
   \<and> map label (clusters (updateCluster ''staging'' exRename exState)) = [''prod'', ''prod'']
   \<and> \<not> uniqueLabels (updateCluster ''staging'' exRename exState)"
  by (simp add: uniqueLabels_def updateCluster_def exState_def exRename_def exProd_def exStaging_def
      orElse_def Let_def)

text \<open>
  C10. \<open>deleteCluster\<close> leaves the connection list and the active selection as they
  are when exactly one connection exists; and when the deleted connection is the active
  one and others remain, the active connection afterwards is one of those that remain.
\<close>

theorem deleteCluster_guard:
  "(length (clusters s) = 1 \<longrightarrow>
      clusters (deleteCluster l s) = clusters s
      \<and> activeClusterLabel (deleteCluster l s) = activeClusterLabel s
      \<and> activeCluster (deleteCluster l s) = activeCluster s)
   \<and> (activeCluster s = Some c \<and> label c = l \<and> filter (\<lambda>x. label x \<noteq> l) (clusters s) \<noteq> [] \<longrightarrow>
      (\<exists>c'. activeCluster (deleteCluster l s) = Some c'
            \<and> c' \<in> set (clusters (deleteCluster l s)) \<and> c' \<in> set (clusters s) \<and> label c' \<noteq> l))"
  using deleteCluster_last(1,2,3)[of s l] deleteCluster_active[of s c l]
  by blast

theorem deleteCluster_guard_witness:
  "length (clusters (exState \<lparr> clusters := [exProd] \<rparr>)) = 1
   \<and> clusters (deleteCluster ''prod'' (exState \<lparr> clusters := [exProd] \<rparr>)) = [exProd]
   \<and> activeCluster (deleteCluster ''prod'' (exState \<lparr> clusters := [exProd] \<rparr>)) = Some exProd
   \<and> activeCluster exState = Some exProd \<and> label exProd = ''prod''
   \<and> filter (\<lambda>x. label x \<noteq> ''prod'') (clusters exState) = [exStaging]
   \<and> activeCluster (deleteCluster ''prod'' exState) = Some exStaging"
proof -
  let ?one = "exState \<lparr> clusters := [exProd] \<rparr>"
  have one: "length (clusters ?one) = 1" by simp
  have a1: "activeCluster ?one = Some exProd"
    by (simp add: activeCluster_def exState_def exProd_def)
  have keep: "clusters (deleteCluster ''prod'' ?one) = [exProd]"
    "activeCluster (deleteCluster ''prod'' ?one) = Some exProd"
    using deleteCluster_guard[of ?one "''prod''"] one a1 by simp_all
  have lab: "label exProd = ''prod''" by (simp add: exProd_def)
  have rest: "filter (\<lambda>x. label x \<noteq> ''prod'') (clusters exState) = [exStaging]"
    by (simp add: exState_def exProd_def exStaging_def)
  obtain c' where c': "activeCluster (deleteCluster ''prod'' exState) = Some c'"
      "c' \<in> set (clusters exState)" "label c' \<noteq> ''prod''"
    using deleteCluster_guard[of exState "''prod''" exProd] exActive lab rest by auto
  then have "c' = exStaging" by (auto simp: exState_def exProd_def)
  then show ?thesis using one keep exActive lab rest c'(1) by simp
qed


end
